theory Spec2Isabelle
  imports Complex_Main "HOL-Library.Multiset"
begin

section \<open>JavaScript strings and numbers\<close>

text \<open>
  A JavaScript string is a sequence of UTF-16 code units. A code unit is modelled as a
  natural number and a string as a list of them, so that \<open>length\<close> is the
  \<^verbatim>\<open>.length\<close> of the source and the accented letters, fraction glyphs and the
  middle dot of the recipe parser are single elements. \<open>js\<close> embeds an ASCII literal.

  A JavaScript number is modelled as a rational: label amounts and portion quantities
  are decimal literals and their sums and products, on which the model is exact
  (IEEE rounding, NaN and the infinities are outside the model).
\<close>

type_synonym jschar = nat
type_synonym jsstring = "nat list"

definition js :: "string \<Rightarrow> jsstring" where
  "js s = map of_char s"

text \<open>\<^verbatim>\<open>\s\<close> and \<^verbatim>\<open>trim()\<close>: the WhiteSpace and LineTerminator code points of ECMAScript.\<close>

definition isSpace :: "jschar \<Rightarrow> bool" where
  "isSpace c \<longleftrightarrow>
     (9 \<le> c \<and> c \<le> 13) \<or> c = 32 \<or> c = 160 \<or> c = 5760 \<or> (8192 \<le> c \<and> c \<le> 8202) \<or>
     c = 8232 \<or> c = 8233 \<or> c = 8239 \<or> c = 8287 \<or> c = 12288 \<or> c = 65279"

text \<open>\<^verbatim>\<open>\d\<close>: the ten ASCII digits.\<close>

definition isDigit :: "jschar \<Rightarrow> bool" where
  "isDigit c \<longleftrightarrow> 48 \<le> c \<and> c \<le> 57"

text \<open>\<^verbatim>\<open>\w\<close>, which decides \<^verbatim>\<open>\b\<close>: ASCII letters, digits and the underscore.\<close>

definition isWordChar :: "jschar \<Rightarrow> bool" where
  "isWordChar c \<longleftrightarrow>
     (65 \<le> c \<and> c \<le> 90) \<or> (97 \<le> c \<and> c \<le> 122) \<or> (48 \<le> c \<and> c \<le> 57) \<or> c = 95"

text \<open>
  Canonicalize of a case-insensitive pattern without the unicode flag: the character's
  upper case, unless that leaves a single code unit or maps a non-ASCII character into
  ASCII. The model covers the ASCII letters and the Latin-1 letters with an upper case in
  Latin-1, and is the identity elsewhere; it is exact for every comparison against a
  character occurring in the patterns of this program (ASCII, i with acute, n with tilde,
  digits and punctuation), since no other character has one of those as its upper case.
\<close>

definition canonicalize :: "jschar \<Rightarrow> jschar" where
  "canonicalize c =
     (if 97 \<le> c \<and> c \<le> 122 then c - 32
      else if 224 \<le> c \<and> c \<le> 254 \<and> c \<noteq> 247 then c - 32
      else c)"

definition trimStart :: "jsstring \<Rightarrow> jsstring" where
  "trimStart s = dropWhile isSpace s"

definition trimEnd :: "jsstring \<Rightarrow> jsstring" where
  "trimEnd s = rev (dropWhile isSpace (rev s))"

definition trim :: "jsstring \<Rightarrow> jsstring" where
  "trim s = trimEnd (trimStart s)"

text \<open>\<^verbatim>\<open>s.split('\n')\<close>: always at least one piece.\<close>

fun splitLines :: "jsstring \<Rightarrow> jsstring list" where
  "splitLines [] = [[]]"
| "splitLines (c # cs) =
     (if c = 10 then [] # splitLines cs
      else (case splitLines cs of
              [] \<Rightarrow> [[c]]
            | l # ls \<Rightarrow> (c # l) # ls))"

text \<open>\<^verbatim>\<open>parts.join(sep)\<close>.\<close>

fun join :: "jsstring \<Rightarrow> jsstring list \<Rightarrow> jsstring" where
  "join sep [] = []"
| "join sep [x] = x"
| "join sep (x # y # ys) = x @ sep @ join sep (y # ys)"

text \<open>
  \<^verbatim>\<open>toLowerCase\<close> and \<^verbatim>\<open>toUpperCase\<close> follow the Unicode case tables. On a string of
  ASCII characters they change exactly the ASCII letters; on any other string the result
  is taken from a parameter, so that every theorem holds for whatever the tables say.
\<close>

definition isAscii :: "jsstring \<Rightarrow> bool" where
  "isAscii s \<longleftrightarrow> list_all (\<lambda>c. c < 128) s"

definition asciiLower :: "jschar \<Rightarrow> jschar" where
  "asciiLower c = (if 65 \<le> c \<and> c \<le> 90 then c + 32 else c)"

definition asciiUpper :: "jschar \<Rightarrow> jschar" where
  "asciiUpper c = (if 97 \<le> c \<and> c \<le> 122 then c - 32 else c)"

text \<open>The built-ins of the host that depend on Unicode or locale data.\<close>

record host =
  lowerTable :: "jsstring \<Rightarrow> jsstring"
  upperTable :: "jsstring \<Rightarrow> jsstring"
  normalizeNFD :: "jsstring \<Rightarrow> jsstring"
  localeCompare :: "jsstring \<Rightarrow> jsstring \<Rightarrow> int"

definition toLowerCase :: "host \<Rightarrow> jsstring \<Rightarrow> jsstring" where
  "toLowerCase H s = (if isAscii s then map asciiLower s else lowerTable H s)"

definition toUpperCase :: "host \<Rightarrow> jsstring \<Rightarrow> jsstring" where
  "toUpperCase H s = (if isAscii s then map asciiUpper s else upperTable H s)"

section \<open>Regular expressions\<close>

text \<open>
  The patterns of the program are written in a small abstract syntax and run by a
  backtracking matcher that returns every way to match, in the priority order of
  ECMAScript (greedy quantifiers, alternatives left to right). Quantifiers \<^verbatim>\<open>*\<close> and
  \<^verbatim>\<open>+\<close> occur in the program on single-character atoms only, and are modelled on those.
\<close>

datatype atom =
    Ch jschar               \<comment> \<open>one literal character\<close>
  | Rng jschar jschar       \<comment> \<open>\<^verbatim>\<open>a-z\<close>\<close>
  | Digit                   \<comment> \<open>\<^verbatim>\<open>\d\<close>\<close>
  | Space                   \<comment> \<open>\<^verbatim>\<open>\s\<close>\<close>

datatype cset =
    Pos "atom list"         \<comment> \<open>\<^verbatim>\<open>[...]\<close>, or a single atom\<close>
  | Neg "atom list"         \<comment> \<open>\<^verbatim>\<open>[^...]\<close>\<close>

datatype rx =
    One cset                \<comment> \<open>one character of a class\<close>
  | Lit jsstring            \<comment> \<open>a run of literal characters\<close>
  | Bol                     \<comment> \<open>\<^verbatim>\<open>^\<close>\<close>
  | Eol                     \<comment> \<open>\<^verbatim>\<open>$\<close> (no multiline flag)\<close>
  | WordB                   \<comment> \<open>\<^verbatim>\<open>\b\<close>\<close>
  | Seq rx rx
  | Alt rx rx
  | Opt rx                  \<comment> \<open>\<^verbatim>\<open>r?\<close>\<close>
  | Star cset               \<comment> \<open>\<^verbatim>\<open>c*\<close>\<close>
  | Plus cset               \<comment> \<open>\<^verbatim>\<open>c+\<close>\<close>
  | Grp nat rx              \<comment> \<open>capture group number n\<close>

fun inAtom :: "bool \<Rightarrow> atom \<Rightarrow> jschar \<Rightarrow> bool" where
  "inAtom ci (Ch c) x = (if ci then canonicalize x = canonicalize c else x = c)"
| "inAtom ci (Rng a b) x =
     (if ci then list_ex (\<lambda>m. canonicalize x = canonicalize m) [a ..< Suc b]
      else a \<le> x \<and> x \<le> b)"
| "inAtom ci Digit x = isDigit x"
| "inAtom ci Space x = isSpace x"

fun inSet :: "bool \<Rightarrow> cset \<Rightarrow> jschar \<Rightarrow> bool" where
  "inSet ci (Pos as) x = list_ex (\<lambda>a. inAtom ci a x) as"
| "inSet ci (Neg as) x = (\<not> list_ex (\<lambda>a. inAtom ci a x) as)"

text \<open>
  A matcher state: the character before the current position (\<open>None\<close> at the start of the
  input), the input still to be read, and the captures made so far, most recent first.
\<close>

type_synonym mstate = "jschar option \<times> jsstring \<times> (nat \<times> jsstring) list"

fun matchLit :: "bool \<Rightarrow> jsstring \<Rightarrow> jschar option \<Rightarrow> jsstring \<Rightarrow> (jschar option \<times> jsstring) option" where
  "matchLit ci [] p s = Some (p, s)"
| "matchLit ci (c # cs) p [] = None"
| "matchLit ci (c # cs) p (x # xs) =
     (if inAtom ci (Ch c) x then matchLit ci cs (Some x) xs else None)"

text \<open>Greedy repetition of a class: the longest run first, then each shorter one.\<close>

fun starRuns :: "bool \<Rightarrow> cset \<Rightarrow> mstate \<Rightarrow> mstate list" where
  "starRuns ci c (p, [], caps) = [(p, [], caps)]"
| "starRuns ci c (p, x # xs, caps) =
     (if inSet ci c x then starRuns ci c (Some x, xs, caps) else []) @ [(p, x # xs, caps)]"

definition atWordBoundary :: "jschar option \<Rightarrow> jsstring \<Rightarrow> bool" where
  "atWordBoundary p s \<longleftrightarrow>
     (case p of None \<Rightarrow> False | Some c \<Rightarrow> isWordChar c) \<noteq>
     (case s of [] \<Rightarrow> False | x # _ \<Rightarrow> isWordChar x)"

fun oneChar :: "bool \<Rightarrow> cset \<Rightarrow> mstate \<Rightarrow> mstate list" where
  "oneChar ci c (p, [], caps) = []"
| "oneChar ci c (p, x # xs, caps) = (if inSet ci c x then [(Some x, xs, caps)] else [])"

fun capture :: "nat \<Rightarrow> jsstring \<Rightarrow> mstate \<Rightarrow> mstate" where
  "capture n s (p', s', caps') = (p', s', (n, take (length s - length s') s) # caps')"

primrec ms :: "bool \<Rightarrow> rx \<Rightarrow> mstate \<Rightarrow> mstate list" where
  "ms ci (One c) = oneChar ci c"
| "ms ci (Lit w) = (\<lambda>(p, s, caps).
     (case matchLit ci w p s of None \<Rightarrow> [] | Some (p', s') \<Rightarrow> [(p', s', caps)]))"
| "ms ci Bol = (\<lambda>(p, s, caps). if p = None then [(p, s, caps)] else [])"
| "ms ci Eol = (\<lambda>(p, s, caps). if s = [] then [(p, s, caps)] else [])"
| "ms ci WordB = (\<lambda>(p, s, caps). if atWordBoundary p s then [(p, s, caps)] else [])"
| "ms ci (Seq a b) = (\<lambda>st. concat (map (ms ci b) (ms ci a st)))"
| "ms ci (Alt a b) = (\<lambda>st. ms ci a st @ ms ci b st)"
| "ms ci (Opt a) = (\<lambda>st. ms ci a st @ [st])"
| "ms ci (Star c) = starRuns ci c"
| "ms ci (Plus c) = (\<lambda>st. concat (map (starRuns ci c) (oneChar ci c st)))"
| "ms ci (Grp n a) = (\<lambda>(p, s, caps). map (capture n s) (ms ci a (p, s, caps)))"

text \<open>
  The first match of a pattern, trying each start position from the left: the
  characters skipped before the match and the state after it.
\<close>

fun search :: "bool \<Rightarrow> rx \<Rightarrow> jschar option \<Rightarrow> jsstring \<Rightarrow> (jsstring \<times> mstate) option" where
  "search ci r p [] =
     (case ms ci r (p, [], []) of [] \<Rightarrow> None | st # _ \<Rightarrow> Some ([], st))"
| "search ci r p (x # xs) =
     (case ms ci r (p, x # xs, []) of
        st # _ \<Rightarrow> Some ([], st)
      | [] \<Rightarrow> (case search ci r (Some x) xs of
                None \<Rightarrow> None
              | Some (skipped, st) \<Rightarrow> Some (x # skipped, st)))"

text \<open>\<^verbatim>\<open>re.test(s)\<close>.\<close>

definition test :: "bool \<Rightarrow> rx \<Rightarrow> jsstring \<Rightarrow> bool" where
  "test ci r s \<longleftrightarrow> search ci r None s \<noteq> None"

text \<open>\<^verbatim>\<open>s.match(re)\<close> for a pattern without the global flag: the captures, or \<open>None\<close> for null.\<close>

definition match :: "bool \<Rightarrow> rx \<Rightarrow> jsstring \<Rightarrow> (nat \<times> jsstring) list option" where
  "match ci r s = map_option (\<lambda>(skipped, p, rest, caps). caps) (search ci r None s)"

text \<open>A capture group of a match; \<open>None\<close> is \<^verbatim>\<open>undefined\<close>.\<close>

definition group :: "(nat \<times> jsstring) list \<Rightarrow> nat \<Rightarrow> jsstring option" where
  "group caps n = map_of caps n"

text \<open>\<^verbatim>\<open>s.replace(re, rep)\<close> for a pattern without the global flag: the first match only.\<close>

definition replaceFirst :: "bool \<Rightarrow> rx \<Rightarrow> jsstring \<Rightarrow> jsstring \<Rightarrow> jsstring" where
  "replaceFirst ci r rep s =
     (case search ci r None s of
        None \<Rightarrow> s
      | Some (skipped, p, rest, caps) \<Rightarrow> skipped @ rep @ rest)"

text \<open>
  \<^verbatim>\<open>s.replace(re, rep)\<close> for a pattern with the global flag: every match from left to
  right; after an empty match the next character is copied and the search goes on behind it.
\<close>

function replaceFrom :: "bool \<Rightarrow> rx \<Rightarrow> jsstring \<Rightarrow> jschar option \<Rightarrow> jsstring \<Rightarrow> jsstring" where
  "replaceFrom ci r rep p s =
     (case ms ci r (p, s, []) of
        (p', s', caps) # _ \<Rightarrow>
          if length s' < length s then rep @ replaceFrom ci r rep p' s'
          else rep @ (case s of [] \<Rightarrow> [] | x # xs \<Rightarrow> x # replaceFrom ci r rep (Some x) xs)
      | [] \<Rightarrow> (case s of [] \<Rightarrow> [] | x # xs \<Rightarrow> x # replaceFrom ci r rep (Some x) xs))"
  by pat_completeness auto
termination
  by (relation "measure (\<lambda>(ci, r, rep, p, s). length s)") auto

definition replaceAll :: "bool \<Rightarrow> rx \<Rightarrow> jsstring \<Rightarrow> jsstring \<Rightarrow> jsstring" where
  "replaceAll ci r rep s = replaceFrom ci r rep None s"

section \<open>JavaScript numbers\<close>

text \<open>
  A JavaScript number is an IEEE 754 binary64 value: a sign and a magnitude, an infinity
  with its sign, or NaN. The sign is \<open>True\<close> for a negative number, so that the two zeros
  are \<open>Fin False 0\<close> and \<open>Fin True 0\<close>. The magnitude of a number is a rational that
  binary64 represents; the operations below round every result to such a rational.
\<close>

datatype jsnum = Fin bool rat | Infty bool | NaN

text \<open>A small non-negative integer literal of the source, such as 0 and 1.\<close>

definition jsInt :: "nat \<Rightarrow> jsnum" where
  "jsInt n = Fin False (of_nat n)"

text \<open>The integer part of the binary logarithm of a positive natural number.\<close>

function ilog2 :: "nat \<Rightarrow> nat" where
  "ilog2 n = (if n < 2 then 0 else Suc (ilog2 (n div 2)))"
  by pat_completeness auto
termination
  by (relation "measure (\<lambda>n. n)") auto

text \<open>Powers of two with an integer exponent.\<close>

definition pow2 :: "int \<Rightarrow> rat" where
  "pow2 e = (if 0 \<le> e then 2 ^ nat e else 1 / 2 ^ nat (- e))"

text \<open>
  The binary exponent of a positive rational \<open>x\<close>: the integer \<open>e\<close> with
  \<open>2\<^sup>e \<le> x < 2\<^sup>e\<^sup>+\<^sup>1\<close>.
\<close>

definition exponentOf :: "rat \<Rightarrow> int" where
  "exponentOf x =
     (if 1 \<le> x then int (ilog2 (nat \<lfloor>x\<rfloor>))
      else (let j = int (ilog2 (nat \<lfloor>1 / x\<rfloor>)) in
            if x = pow2 (- j) then - j else - j - 1))"

text \<open>Rounding to the nearest integer, a tie going to the even one.\<close>

definition roundHalfEven :: "rat \<Rightarrow> int" where
  "roundHalfEven m =
     (let f = \<lfloor>m\<rfloor>; d = m - of_int f in
      if d < 1 / 2 then f
      else if 1 / 2 < d then f + 1
      else if even f then f else f + 1)"

text \<open>
  Rounding a non-negative rational to binary64, to nearest with ties to even: the
  results are the multiples of the unit in the last place, which is \<open>2\<^sup>e\<^sup>-\<^sup>5\<^sup>2\<close> for a
  number of exponent \<open>e\<close> and \<open>2\<^sup>-\<^sup>1\<^sup>0\<^sup>7\<^sup>4\<close> below \<open>2\<^sup>-\<^sup>1\<^sup>0\<^sup>2\<^sup>2\<close>. \<open>None\<close> is the overflow
  to infinity, when the rounded result reaches \<open>2\<^sup>1\<^sup>0\<^sup>2\<^sup>4\<close>.
\<close>

definition roundMag :: "rat \<Rightarrow> rat option" where
  "roundMag x =
     (if x \<le> 0 then Some 0
      else (let e = max (exponentOf x) (- 1022);
                ulp = pow2 (e - 52);
                r = of_int (roundHalfEven (x / ulp)) * ulp
            in if pow2 1024 \<le> r then None else Some r))"

text \<open>The number of sign \<open>s\<close> nearest to the magnitude \<open>x\<close>.\<close>

definition rounded :: "bool \<Rightarrow> rat \<Rightarrow> jsnum" where
  "rounded s x = (case roundMag x of None \<Rightarrow> Infty s | Some r \<Rightarrow> Fin s r)"

text \<open>The rational a sign and a magnitude stand for.\<close>

definition signed :: "bool \<Rightarrow> rat \<Rightarrow> rat" where
  "signed s m = (if s then - m else m)"

text \<open>
  \<^verbatim>\<open>a * b\<close>: NaN with a NaN operand and for an infinity times a zero; otherwise the sign
  is negative when the signs of the operands differ, also for a zero result.
\<close>

fun jsMul :: "jsnum \<Rightarrow> jsnum \<Rightarrow> jsnum" where
  "jsMul NaN b = NaN"
| "jsMul a NaN = NaN"
| "jsMul (Infty s) (Infty t) = Infty (s \<noteq> t)"
| "jsMul (Infty s) (Fin t n) = (if n = 0 then NaN else Infty (s \<noteq> t))"
| "jsMul (Fin s m) (Infty t) = (if m = 0 then NaN else Infty (s \<noteq> t))"
| "jsMul (Fin s m) (Fin t n) = rounded (s \<noteq> t) (m * n)"

text \<open>
  \<^verbatim>\<open>a + b\<close>: NaN with a NaN operand and for infinities of opposite signs; a sum that is
  exactly zero is the negative zero only when both operands are negative zeros.
\<close>

fun jsAdd :: "jsnum \<Rightarrow> jsnum \<Rightarrow> jsnum" where
  "jsAdd NaN b = NaN"
| "jsAdd a NaN = NaN"
| "jsAdd (Infty s) (Infty t) = (if s = t then Infty s else NaN)"
| "jsAdd (Infty s) (Fin t n) = Infty s"
| "jsAdd (Fin s m) (Infty t) = Infty t"
| "jsAdd (Fin s m) (Fin t n) =
     (let x = signed s m + signed t n in
      if x = 0 then Fin (s \<and> t) 0
      else rounded (x < 0) \<bar>x\<bar>)"

text \<open>Patterns are written as sequences and alternatives of several parts.\<close>

fun seqs :: "rx list \<Rightarrow> rx" where
  "seqs [] = Lit []"
| "seqs [r] = r"
| "seqs (r # rs) = Seq r (seqs rs)"

fun alts :: "rx list \<Rightarrow> rx" where
  "alts [] = One (Pos [])"
| "alts [r] = r"
| "alts (r # rs) = Alt r (alts rs)"

abbreviation digit :: cset where "digit \<equiv> Pos [Digit]"
abbreviation space :: cset where "space \<equiv> Pos [Space]"

section \<open>Ingredient quantities\<close>

text \<open>
  What can go wrong in the functions below. \<open>TypeError\<close> is the exception raised when a
  property of \<^verbatim>\<open>undefined\<close> is read. \<open>NotANumber\<close> marks an amount that would be NaN:
  the source would return it without raising, the model makes it an error value, so that
  the theorems can say that it never arises.
\<close>

datatype error = TypeError | NotANumber

text \<open>
  \<^verbatim>\<open>parseInt\<close> and \<^verbatim>\<open>parseFloat\<close> on the strings the patterns capture: a run of digits,
  and a run of digits with an optional fraction. \<open>None\<close> stands for NaN and for every
  string outside that shape.
\<close>

definition digitsValue :: "jsstring \<Rightarrow> nat" where
  "digitsValue s = foldl (\<lambda>a d. 10 * a + (d - 48)) 0 s"

definition allDigits :: "jsstring \<Rightarrow> bool" where
  "allDigits s \<longleftrightarrow> s \<noteq> [] \<and> list_all isDigit s"

definition parseInt :: "jsstring \<Rightarrow> rat option" where
  "parseInt s = (if allDigits s then Some (of_nat (digitsValue s)) else None)"

definition parseFloat :: "jsstring \<Rightarrow> rat option" where
  "parseFloat s =
     (let ip = takeWhile isDigit s; rest = dropWhile isDigit s in
      if ip = [] then None
      else (case rest of
              [] \<Rightarrow> Some (of_nat (digitsValue ip))
            | c # fr \<Rightarrow>
                if c = 46 \<and> allDigits fr
                then Some (of_nat (digitsValue ip) + of_nat (digitsValue fr) / 10 ^ length fr)
                else None))"

text \<open>
  The number read from a capture group. A group that did not take part in the match is
  \<^verbatim>\<open>undefined\<close>, which both functions turn into NaN.
\<close>

definition numberOf :: "(jsstring \<Rightarrow> rat option) \<Rightarrow> jsstring option \<Rightarrow> error + rat" where
  "numberOf f g =
     (case g of
        None \<Rightarrow> Inl NotANumber
      | Some s \<Rightarrow> (case f s of None \<Rightarrow> Inl NotANumber | Some v \<Rightarrow> Inr v))"

record labelQuantity =
  lq_amount :: rat
  lq_unit :: jsstring
  lq_isPackBased :: bool

text \<open>\<^verbatim>\<open>/\s*x0$/i\<close>\<close>

definition rxX0 :: rx where
  "rxX0 = seqs [Star space, Lit (js ''x0''), Eol]"

text \<open>\<^verbatim>\<open>\d+(?:\.\d+)?\<close>\<close>

definition rxNumber :: rx where
  "rxNumber = Seq (Plus digit) (Opt (Seq (Lit (js ''.'')) (Plus digit)))"

text \<open>\<^verbatim>\<open>g|kg|ml|l|tsp|tbsp|pcs?\<close>\<close>

definition rxUnit :: rx where
  "rxUnit = alts [Lit (js ''g''), Lit (js ''kg''), Lit (js ''ml''), Lit (js ''l''),
                  Lit (js ''tsp''), Lit (js ''tbsp''), Seq (Lit (js ''pc'')) (Opt (Lit (js ''s'')))]"

text \<open>\<^verbatim>\<open>/\((\d+(?:\.\d+)?)\s*(g|kg|ml|l|tsp|tbsp|pcs?)\)/i\<close>\<close>

definition rxParen :: rx where
  "rxParen = seqs [Lit (js ''(''), Grp 1 rxNumber, Star space, Grp 2 rxUnit, Lit (js '')'')]"

text \<open>\<^verbatim>\<open>/\((\d+(?:\.\d+)?)\)/i\<close>\<close>

definition rxParenNum :: rx where
  "rxParenNum = seqs [Lit (js ''(''), Grp 1 rxNumber, Lit (js '')'')]"

text \<open>\<^verbatim>\<open>/x\s*(\d+)$/i\<close>\<close>

definition rxXSuffix :: rx where
  "rxXSuffix = seqs [Lit (js ''x''), Star space, Grp 1 (Plus digit), Eol]"

text \<open>\<^verbatim>\<open>/^(\d+)\s*x?\s+/i\<close>\<close>

definition rxLeadingNum :: rx where
  "rxLeadingNum = seqs [Bol, Grp 1 (Plus digit), Star space, Opt (Lit (js ''x'')), Plus space]"

text \<open>
  The four patterns are tried in the order of the source; the first that matches decides.
  A label is the \<^verbatim>\<open>label\<close> string of an ingredient.
\<close>

definition parseQuantityFromLabel :: "host \<Rightarrow> jsstring \<Rightarrow> error + labelQuantity" where
  "parseQuantityFromLabel H label =
     (let cleanedLabel = replaceFirst True rxX0 [] label in
      case match True rxParen cleanedLabel of
        Some parenMatch \<Rightarrow>
          (case group parenMatch 2 of
             None \<Rightarrow> Inl TypeError
           | Some u \<Rightarrow>
               (case numberOf parseFloat (group parenMatch 1) of
                  Inl e \<Rightarrow> Inl e
                | Inr a \<Rightarrow>
                    Inr \<lparr>lq_amount = a, lq_unit = toLowerCase H u, lq_isPackBased = True\<rparr>))
      | None \<Rightarrow>
      (case match True rxParenNum cleanedLabel of
        Some parenNumMatch \<Rightarrow>
          (case numberOf parseFloat (group parenNumMatch 1) of
             Inl e \<Rightarrow> Inl e
           | Inr a \<Rightarrow> Inr \<lparr>lq_amount = a, lq_unit = js ''pcs'', lq_isPackBased = True\<rparr>)
      | None \<Rightarrow>
      (case match True rxXSuffix cleanedLabel of
        Some xMatch \<Rightarrow>
          (case numberOf parseInt (group xMatch 1) of
             Inl e \<Rightarrow> Inl e
           | Inr a \<Rightarrow> Inr \<lparr>lq_amount = a, lq_unit = js ''pcs'', lq_isPackBased = False\<rparr>)
      | None \<Rightarrow>
      (case match True rxLeadingNum cleanedLabel of
        Some leadingNumMatch \<Rightarrow>
          (case numberOf parseInt (group leadingNumMatch 1) of
             Inl e \<Rightarrow> Inl e
           | Inr a \<Rightarrow> Inr \<lparr>lq_amount = a, lq_unit = js ''pcs'', lq_isPackBased = True\<rparr>)
      | None \<Rightarrow>
          Inr \<lparr>lq_amount = 1, lq_unit = js ''pcs'', lq_isPackBased = False\<rparr>))))"

section \<open>Combining ingredients\<close>

record ParsedQuantity =
  pq_amount :: rat
  pq_unit :: jsstring
  pq_originalLabel :: jsstring

record CombinedIngredient =
  ci_name :: jsstring
  ci_displayName :: jsstring
  ci_quantities :: "ParsedQuantity list"
  ci_totalAmount :: rat
  ci_unit :: jsstring
  ci_imageUrl :: "jsstring option"
  ci_recipeCount :: nat

text \<open>One ingredient of a recipe, and the ingredients of one recipe, as the caller passes them.\<close>

record ingredient =
  ing_id :: jsstring
  ing_name :: jsstring
  ing_label :: jsstring
  ing_imageUrl :: "jsstring option"
  ing_quantity :: rat

record ingredientList =
  recipeTitle :: jsstring
  ingredients :: "ingredient list"

text \<open>An element of the \<^verbatim>\<open>items\<close> array of a group.\<close>

record item =
  it_label :: jsstring
  it_imageUrl :: "jsstring option"
  it_parsedAmount :: rat
  it_unit :: jsstring
  it_portionQuantity :: rat
  it_recipeTitle :: jsstring

definition getCleanDisplayName :: "host \<Rightarrow> jsstring \<Rightarrow> jsstring \<Rightarrow> jsstring" where
  "getCleanDisplayName H name label =
     (let capitalized = toUpperCase H (take 1 name) @ drop 1 name in capitalized)"

definition measuredUnits :: "jsstring list" where
  "measuredUnits = [js ''g'', js ''kg'', js ''ml'', js ''l'', js ''tsp'', js ''tbsp'']"

text \<open>
  A \<^verbatim>\<open>Map\<close> from strings to arrays keeps its keys in insertion order: an association
  list. \<open>pushTo\<close> is the source's \<^verbatim>\<open>if (!m.has(k)) m.set(k, []); m.get(k).push(v)\<close>.
\<close>

fun pushTo :: "'k \<Rightarrow> 'v \<Rightarrow> ('k \<times> 'v list) list \<Rightarrow> ('k \<times> 'v list) list" where
  "pushTo k v [] = [(k, [v])]"
| "pushTo k v ((k', vs) # m) =
     (if k' = k then (k', vs @ [v]) # m else (k', vs) # pushTo k v m)"

text \<open>The body of the inner loop: the item pushed for one ingredient of one recipe.\<close>

definition mkItem :: "host \<Rightarrow> jsstring \<Rightarrow> ingredient \<Rightarrow> error + item" where
  "mkItem H title ing =
     (case parseQuantityFromLabel H (ing_label ing) of
        Inl e \<Rightarrow> Inl e
      | Inr q \<Rightarrow>
          (let totalAmount =
                 (if lq_isPackBased q then lq_amount q * ing_quantity ing
                  else ing_quantity ing)
           in Inr \<lparr>it_label = ing_label ing,
                   it_imageUrl = ing_imageUrl ing,
                   it_parsedAmount = totalAmount,
                   it_unit = (if toLowerCase H (lq_unit q) \<in> set measuredUnits
                              then lq_unit q else js ''pcs''),
                   it_portionQuantity = ing_quantity ing,
                   it_recipeTitle = title\<rparr>))"

type_synonym groups = "(jsstring \<times> item list) list"

fun addIngredients :: "host \<Rightarrow> jsstring \<Rightarrow> ingredient list \<Rightarrow> groups \<Rightarrow> error + groups" where
  "addIngredients H title [] grouped = Inr grouped"
| "addIngredients H title (ing # ings) grouped =
     (case mkItem H title ing of
        Inl e \<Rightarrow> Inl e
      | Inr it \<Rightarrow> addIngredients H title ings (pushTo (ing_name ing) it grouped))"

fun addLists :: "host \<Rightarrow> ingredientList list \<Rightarrow> groups \<Rightarrow> error + groups" where
  "addLists H [] grouped = Inr grouped"
| "addLists H (l # ls) grouped =
     (case addIngredients H (recipeTitle l) (ingredients l) grouped of
        Inl e \<Rightarrow> Inl e
      | Inr grouped' \<Rightarrow> addLists H ls grouped')"

text \<open>The items of one name, grouped by lower-cased unit.\<close>

definition byUnitOf :: "host \<Rightarrow> item list \<Rightarrow> groups" where
  "byUnitOf H items = foldl (\<lambda>byUnit item. pushTo (toLowerCase H (it_unit item)) item byUnit) [] items"

text \<open>
  The record pushed for one unit group. \<^verbatim>\<open>items[0]\<close> of an empty array is
  \<^verbatim>\<open>undefined\<close>, and reading its \<^verbatim>\<open>label\<close> raises a TypeError.
\<close>

definition mkCombined ::
  "host \<Rightarrow> jsstring \<Rightarrow> jsstring \<Rightarrow> jsstring \<Rightarrow> item list \<Rightarrow> error + CombinedIngredient" where
  "mkCombined H name suffix unit items =
     (case items of
        [] \<Rightarrow> Inl TypeError
      | first # _ \<Rightarrow>
          Inr \<lparr>ci_name = name @ suffix,
               ci_displayName = getCleanDisplayName H name (it_label first) @ suffix,
               ci_quantities =
                 map (\<lambda>item. \<lparr>pq_amount = it_parsedAmount item, pq_unit = it_unit item,
                               pq_originalLabel = it_label item\<rparr>) items,
               ci_totalAmount = foldl (\<lambda>sum item. sum + it_parsedAmount item) 0 items,
               ci_unit = unit,
               ci_imageUrl = it_imageUrl first,
               ci_recipeCount = length (remdups (map it_recipeTitle items))\<rparr>)"

text \<open>All results of a list of computations, or the first error.\<close>

fun collect :: "(error + 'a) list \<Rightarrow> error + 'a list" where
  "collect [] = Inr []"
| "collect (Inl e # rs) = Inl e"
| "collect (Inr x # rs) = (case collect rs of Inl e \<Rightarrow> Inl e | Inr xs \<Rightarrow> Inr (x # xs))"

text \<open>The records pushed for one name: the body of the loop over \<^verbatim>\<open>grouped\<close>.\<close>

definition emitGroup :: "host \<Rightarrow> jsstring \<times> item list \<Rightarrow> error + CombinedIngredient list" where
  "emitGroup H g =
     (case g of (name, items) \<Rightarrow>
        (let byUnit = byUnitOf H items in
         if length byUnit = 1 then
           (case byUnit of
              (unit, items') # _ \<Rightarrow>
                (case mkCombined H name [] unit items' of
                   Inl e \<Rightarrow> Inl e
                 | Inr c \<Rightarrow> Inr [c])
            | [] \<Rightarrow> Inl TypeError)
         else
           collect (map (\<lambda>(unit, items').
                      mkCombined H name (js '' ('' @ unit @ js '')'') unit items') byUnit)))"

text \<open>
  \<^verbatim>\<open>result.sort(cmp)\<close>: the sort is stable, and with a consistent comparator its
  result is the one of inserting the elements one by one, each behind the elements
  that are not greater.
\<close>

fun insertBy :: "('a \<Rightarrow> 'a \<Rightarrow> int) \<Rightarrow> 'a \<Rightarrow> 'a list \<Rightarrow> 'a list" where
  "insertBy cmp x [] = [x]"
| "insertBy cmp x (y # ys) = (if cmp x y < 0 then x # y # ys else y # insertBy cmp x ys)"

definition sortBy :: "('a \<Rightarrow> 'a \<Rightarrow> int) \<Rightarrow> 'a list \<Rightarrow> 'a list" where
  "sortBy cmp xs = foldl (\<lambda>sorted x. insertBy cmp x sorted) [] xs"

definition combineIngredients :: "host \<Rightarrow> ingredientList list \<Rightarrow> error + CombinedIngredient list" where
  "combineIngredients H ingredientLists =
     (case addLists H ingredientLists [] of
        Inl e \<Rightarrow> Inl e
      | Inr grouped \<Rightarrow>
          (case collect (map (emitGroup H) grouped) of
             Inl e \<Rightarrow> Inl e
           | Inr results \<Rightarrow>
               Inr (sortBy (\<lambda>a b. localeCompare H (ci_displayName a) (ci_displayName b))
                      (concat results))))"

section \<open>Recipe extraction\<close>

text \<open>\<^verbatim>\<open>/^-|-$/g\<close>\<close>

definition rxEdgeHyphen :: rx where
  "rxEdgeHyphen = Alt (Seq Bol (Lit (js ''-''))) (Seq (Lit (js ''-'')) Eol)"

text \<open>
  The five replacements of \<open>slugify\<close>, in the order of the source: the combining marks
  U+0300 to U+036F, then \<^verbatim>\<open>[^a-z0-9\s-]\<close>, \<^verbatim>\<open>\s+\<close>, \<^verbatim>\<open>-+\<close> and \<^verbatim>\<open>^-|-$\<close>.
\<close>

definition slugify :: "host \<Rightarrow> jsstring \<Rightarrow> jsstring" where
  "slugify H title =
     replaceAll False rxEdgeHyphen []
       (replaceAll False (Plus (Pos [Ch 45])) (js ''-'')
          (replaceAll False (Plus space) (js ''-'')
             (replaceAll False (One (Neg [Rng 97 122, Rng 48 57, Space, Ch 45])) []
                (replaceAll False (One (Pos [Rng 768 879])) []
                   (normalizeNFD H (toLowerCase H title))))))"

text \<open>\<^verbatim>\<open>/\<cdot>\s*\d+\s*$/\<close>, the middle dot being U+00B7.\<close>

definition rxIndexEntry :: rx where
  "rxIndexEntry = seqs [Lit [183], Star space, Plus digit, Star space, Eol]"

definition isIndexEntry :: "jsstring \<Rightarrow> bool" where
  "isIndexEntry line = test False rxIndexEntry line"

text \<open>\<^verbatim>\<open>/\s*XE\s*"[^"]*"\s*/g\<close>\<close>

definition rxXE :: rx where
  "rxXE = seqs [Star space, Lit (js ''XE''), Star space, Lit [34], Star (Neg [Ch 34]), Lit [34],
                Star space]"

text \<open>
  The upper-case and lower-case letters of the title test: \<^verbatim>\<open>A-Z\<close> with the seven
  accented capitals, and \<^verbatim>\<open>a-z\<close> with the seven accented small letters.
\<close>

definition upperLetters :: "atom list" where
  "upperLetters = [Rng 65 90, Ch 193, Ch 201, Ch 205, Ch 211, Ch 218, Ch 209, Ch 220]"

definition lowerLetters :: "atom list" where
  "lowerLetters = [Rng 97 122, Ch 225, Ch 233, Ch 237, Ch 243, Ch 250, Ch 241, Ch 252]"

text \<open>
  \<^verbatim>\<open>(s.match(/[...]/g) || []).length\<close> for a one-character class: the number of
  characters of the class.
\<close>

definition countClass :: "atom list \<Rightarrow> jsstring \<Rightarrow> nat" where
  "countClass as s = length (filter (inSet False (Pos as)) s)"

text \<open>
  The ratio test compares two small counts with 0.7; on rationals it is the test the
  floating-point division makes for every string a program can hold.
\<close>

definition isRecipeTitle :: "jsstring \<Rightarrow> bool" where
  "isRecipeTitle line =
     (let cleaned = trim (replaceAll False rxXE [] line) in
      if length cleaned < 3 then False
      else if isIndexEntry line then False
      else
        (let letters = replaceAll False (One (Neg (upperLetters @ [Ch 32] @ lowerLetters))) [] cleaned;
             upperCount = countClass upperLetters letters;
             lowerCount = countClass lowerLetters letters
         in upperCount > 0 \<and>
            (of_nat upperCount :: rat) / of_nat (upperCount + lowerCount) \<ge> 7 / 10))"

definition cleanTitle :: "jsstring \<Rightarrow> jsstring" where
  "cleanTitle title =
     trim (replaceAll False (Plus space) (js '' '') (replaceAll False rxXE [] title))"

text \<open>
  The cooking verbs of \<^verbatim>\<open>methodVerbs\<close>; i with acute is U+00ED and n with tilde U+00F1.
\<close>

definition methodVerbList :: "jsstring list" where
  "methodVerbList =
     [js ''cocinar'', js ''fre'' @ [237] @ js ''r'', js ''hervir'', js ''mezclar'', js ''agregar'',
      js ''a'' @ [241] @ js ''adir'', js ''poner'', js ''dejar'', js ''preparar'', js ''calentar'',
      js ''cortar'', js ''licuar'', js ''batir'', js ''servir'', js ''retirar'', js ''tapar'',
      js ''hornear'', js ''precalentar'', js ''sazonar'', js ''condimentar'', js ''espolvorear'',
      js ''vaciar'', js ''unir'', js ''derretir'', js ''dorar'', js ''saltear'', js ''revolver'',
      js ''colar'', js ''rallar'', js ''picar'']"

text \<open>\<^verbatim>\<open>/\b(cocinar|...|picar)\b/i\<close>\<close>

definition methodVerbs :: rx where
  "methodVerbs = seqs [WordB, Grp 1 (alts (map Lit methodVerbList)), WordB]"

text \<open>\<^verbatim>\<open>/^[\d\<bullet>\-\*]/\<close>, the bullet being U+2022.\<close>

definition rxBulletStart :: rx where
  "rxBulletStart = Seq Bol (One (Pos [Digit, Ch 8226, Ch 45, Ch 42]))"

text \<open>
  \<^verbatim>\<open>/\b(\d+|1/2|1/4|3/4|1/3|2/3)\s*(T|CH|ch|taza|...|rodajas?)\b/i\<close>, the five fractions
  being the single glyphs U+00BD, U+00BC, U+00BE, U+2153 and U+2154.
\<close>

definition measurements :: rx where
  "measurements =
     seqs [WordB,
           Grp 1 (alts [Plus digit, Lit [189], Lit [188], Lit [190], Lit [8531], Lit [8532]]),
           Star space,
           Grp 2 (alts [Lit (js ''T''), Lit (js ''CH''), Lit (js ''ch''), Lit (js ''taza''),
                        Lit (js ''tazas''),
                        Seq (Lit (js ''grm'')) (Opt (Lit (js ''s''))),
                        Seq (Lit (js ''gramo'')) (Opt (Lit (js ''s''))),
                        Lit (js ''kg''), Lit (js ''ml''), Lit (js ''litro''),
                        Lit (js ''cucharada''), Lit (js ''cucharadita''), Lit (js ''pizca''),
                        Lit (js ''unidad''), Lit (js ''unidades''), Lit (js ''pcs''),
                        Seq (Lit (js ''diente'')) (Opt (Lit (js ''s''))),
                        Seq (Lit (js ''ramita'')) (Opt (Lit (js ''s''))),
                        Seq (Lit (js ''hoja'')) (Opt (Lit (js ''s''))),
                        Seq (Lit (js ''rebanada'')) (Opt (Lit (js ''s''))),
                        Seq (Lit (js ''tajada'')) (Opt (Lit (js ''s''))),
                        Seq (Lit (js ''rodaja'')) (Opt (Lit (js ''s'')))]),
           WordB]"

definition looksLikeIngredient :: "jsstring \<Rightarrow> bool" where
  "looksLikeIngredient line =
     (let trimmed = trim line in
      if trimmed = [] then False
      else if length trimmed > 80 then False
      else if test True methodVerbs trimmed then False
      else if test False rxBulletStart trimmed then True
      else if test True measurements trimmed then True
      else if length trimmed < 50 \<and> 46 \<notin> set trimmed then True
      else False)"

text \<open>The variables of the loop of \<open>separateContent\<close>.\<close>

record scState =
  ingredientLines :: "jsstring list"
  methodLines :: "jsstring list"
  foundBlankLine :: bool
  inMethod :: bool

definition scInit :: scState where
  "scInit = \<lparr>ingredientLines = [], methodLines = [], foundBlankLine = False, inMethod = False\<rparr>"

text \<open>One iteration of the loop, on one line of the body.\<close>

definition scStep :: "scState \<Rightarrow> jsstring \<Rightarrow> scState" where
  "scStep st line =
     (let trimmed = trim line in
      if trimmed = [] then
        (if ingredientLines st \<noteq> [] \<and> \<not> inMethod st then st\<lparr>foundBlankLine := True\<rparr> else st)
      else
        (let st1 = (if foundBlankLine st \<and> \<not> inMethod st \<and> \<not> looksLikeIngredient trimmed
                    then st\<lparr>inMethod := True\<rparr> else st)
         in if inMethod st1 then st1\<lparr>methodLines := methodLines st1 @ [trimmed]\<rparr>
            else if looksLikeIngredient trimmed
            then st1\<lparr>ingredientLines := ingredientLines st1 @ [trimmed]\<rparr>
            else if ingredientLines st1 = []
            then st1\<lparr>methodLines := methodLines st1 @ [trimmed], inMethod := True\<rparr>
            else st1\<lparr>inMethod := True, methodLines := methodLines st1 @ [trimmed]\<rparr>))"

text \<open>The object \<open>separateContent\<close> returns: a key that is absent is \<open>None\<close>.\<close>

record separation =
  sep_ingredientes :: "jsstring option"
  sep_metodo :: "jsstring option"
  sep_content :: "jsstring option"

text \<open>The loop of \<open>separateContent\<close> over the lines of a body.\<close>

definition collectLines :: "jsstring \<Rightarrow> scState" where
  "collectLines body = foldl scStep scInit (splitLines body)"

definition separateContent :: "jsstring \<Rightarrow> separation" where
  "separateContent body =
     (let st = collectLines body;
          hasIngredients = length (ingredientLines st) \<ge> 2;
          hasMethod = length (methodLines st) \<ge> 1
      in if hasIngredients \<and> hasMethod
         then \<lparr>sep_ingredientes = Some (join [10] (ingredientLines st)),
               sep_metodo = Some (join [10, 10] (methodLines st)),
               sep_content = None\<rparr>
         else \<lparr>sep_ingredientes = None, sep_metodo = None, sep_content = Some (trim body)\<rparr>)"

text \<open>A recipe while its body is being collected.\<close>

record rawRecipe =
  raw_title :: jsstring
  raw_slug :: jsstring
  rawContent :: jsstring

text \<open>The variables of the loop of \<open>parseRecipes\<close>.\<close>

record prState =
  recipes :: "rawRecipe list"
  currentRecipe :: "rawRecipe option"
  inIndex :: bool

text \<open>\<^verbatim>\<open>/^[A-Z]$/\<close>\<close>

definition rxSingleLetter :: rx where
  "rxSingleLetter = seqs [Bol, One (Pos [Rng 65 90]), Eol]"

definition startsWith :: "jsstring \<Rightarrow> jsstring \<Rightarrow> bool" where
  "startsWith s pre \<longleftrightarrow> take (length pre) s = pre"

text \<open>
  \<^verbatim>\<open>if (currentRecipe && currentRecipe.rawContent.trim()) recipes.push(currentRecipe)\<close>
\<close>

definition pushCurrent :: "prState \<Rightarrow> rawRecipe list" where
  "pushCurrent st =
     (case currentRecipe st of
        None \<Rightarrow> recipes st
      | Some r \<Rightarrow> if trim (rawContent r) \<noteq> [] then recipes st @ [r] else recipes st)"

text \<open>The part of the loop body behind the index section: a title line or a body line.\<close>

definition prLine :: "host \<Rightarrow> prState \<Rightarrow> jsstring \<Rightarrow> jsstring \<Rightarrow> prState" where
  "prLine H st line trimmed =
     (if isRecipeTitle trimmed then
        (let title = cleanTitle trimmed in
         st\<lparr>recipes := pushCurrent st,
            currentRecipe := Some \<lparr>raw_title = title, raw_slug = slugify H title, rawContent = []\<rparr>\<rparr>)
      else
        (case currentRecipe st of
           Some r \<Rightarrow> st\<lparr>currentRecipe := Some (r\<lparr>rawContent := rawContent r @ line @ [10]\<rparr>)\<rparr>
         | None \<Rightarrow> st))"

definition prStep :: "host \<Rightarrow> prState \<Rightarrow> jsstring \<Rightarrow> prState" where
  "prStep H st line =
     (let trimmed = trim line in
      if trimmed = [] \<and> currentRecipe st = None then st
      else if inIndex st then
        (if isIndexEntry trimmed then st
         else if test False rxSingleLetter trimmed then st
         else if startsWith trimmed (js ''INDEX'') then st
         else if isRecipeTitle trimmed then prLine H (st\<lparr>inIndex := False\<rparr>) line trimmed
         else st)
      else prLine H st line trimmed)"

text \<open>\<open>parseRecipes\<close>, on the text of the input file.\<close>

definition parseRecipes :: "host \<Rightarrow> jsstring \<Rightarrow> rawRecipe list" where
  "parseRecipes H text =
     pushCurrent (foldl (prStep H) \<lparr>recipes = [], currentRecipe = None, inIndex = True\<rparr>
                    (splitLines text))"

text \<open>A recipe as \<open>main\<close> writes it: title and slug, and the keys of the separation.\<close>

record Recipe =
  rec_title :: jsstring
  rec_slug :: jsstring
  rec_ingredientes :: "jsstring option"
  rec_metodo :: "jsstring option"
  rec_content :: "jsstring option"

text \<open>\<open>processedRecipes\<close> of \<open>main\<close>.\<close>

definition processRecipe :: "rawRecipe \<Rightarrow> Recipe" where
  "processRecipe recipe =
     (let separated = separateContent (rawContent recipe) in
      \<lparr>rec_title = raw_title recipe, rec_slug = raw_slug recipe,
       rec_ingredientes = sep_ingredientes separated,
       rec_metodo = sep_metodo separated,
       rec_content = sep_content separated\<rparr>)"

definition processedRecipes :: "host \<Rightarrow> jsstring \<Rightarrow> Recipe list" where
  "processedRecipes H text = map processRecipe (parseRecipes H text)"

section \<open>Notions used in the proofs, and concrete inputs\<close>

text \<open>The strings the number pattern captures: digits, with an optional fraction.\<close>

definition isDecimal :: "jsstring \<Rightarrow> bool" where
  "isDecimal w \<longleftrightarrow> allDigits w \<or> (\<exists>ds fs. w = ds @ 46 # fs \<and> allDigits ds \<and> allDigits fs)"

text \<open>The units the first pattern can capture, lower-cased, and the units an item can have.\<close>

definition labelUnits :: "jsstring list" where
  "labelUnits = [js ''g'', js ''kg'', js ''ml'', js ''l'', js ''tsp'', js ''tbsp'', js ''pc'', js ''pcs'']"

definition canonicalUnits :: "jsstring list" where
  "canonicalUnits = [js ''g'', js ''kg'', js ''ml'', js ''l'', js ''tsp'', js ''tbsp'', js ''pcs'']"

text \<open>A property of every value of a grouping, none of whose groups is empty.\<close>

definition allVals :: "('k \<Rightarrow> 'v \<Rightarrow> bool) \<Rightarrow> ('k \<times> 'v list) list \<Rightarrow> bool" where
  "allVals Q m \<longleftrightarrow> (\<forall>(k, vs) \<in> set m. vs \<noteq> [] \<and> (\<forall>v \<in> set vs. Q k v))"

text \<open>What the loop body \<open>mkItem\<close> establishes of the item it pushes.\<close>

definition madeItem :: "host \<Rightarrow> jsstring \<Rightarrow> item \<Rightarrow> bool" where
  "madeItem H name it \<longleftrightarrow>
     (\<exists>q. parseQuantityFromLabel H (it_label it) = Inr q \<and>
        it_parsedAmount it =
          (if lq_isPackBased q then lq_amount q * it_portionQuantity it else it_portionQuantity it)) \<and>
     it_unit it \<in> set canonicalUnits"

text \<open>
  A host for concrete runs: comparison by code units, and case tables and normalisation
  that leave strings with other than ASCII characters as they are.
\<close>

fun compareUnits :: "jsstring \<Rightarrow> jsstring \<Rightarrow> int" where
  "compareUnits [] [] = 0"
| "compareUnits [] (y # ys) = - 1"
| "compareUnits (x # xs) [] = 1"
| "compareUnits (x # xs) (y # ys) =
     (if x < y then - 1 else if y < x then 1 else compareUnits xs ys)"

definition asciiHost :: host where
  "asciiHost = \<lparr>lowerTable = id, upperTable = id, normalizeNFD = id, localeCompare = compareUnits\<rparr>"

text \<open>Two recipes with four ingredient occurrences, and the three records they combine to.\<close>

definition exampleLists :: "ingredientList list" where
  "exampleLists =
     [\<lparr>recipeTitle = js ''Roast'', ingredients =
        [\<lparr>ing_id = js ''1'', ing_name = js ''garlic'', ing_label = js ''Garlic (20g)'',
          ing_imageUrl = None, ing_quantity = 2\<rparr>,
         \<lparr>ing_id = js ''2'', ing_name = js ''garlic'', ing_label = js ''Garlic clove'',
          ing_imageUrl = None, ing_quantity = 3\<rparr>]\<rparr>,
      \<lparr>recipeTitle = js ''Curry'', ingredients =
        [\<lparr>ing_id = js ''1'', ing_name = js ''garlic'', ing_label = js ''Garlic (2PC)'',
          ing_imageUrl = None, ing_quantity = 2\<rparr>,
         \<lparr>ing_id = js ''3'', ing_name = js ''chicken'', ing_label = js ''Chicken breast strips (250g)'',
          ing_imageUrl = None, ing_quantity = 3\<rparr>]\<rparr>]"

definition exampleChicken :: CombinedIngredient where
  "exampleChicken =
     \<lparr>ci_name = js ''chicken'', ci_displayName = js ''Chicken'',
      ci_quantities = [\<lparr>pq_amount = 750, pq_unit = js ''g'',
                        pq_originalLabel = js ''Chicken breast strips (250g)''\<rparr>],
      ci_totalAmount = 750, ci_unit = js ''g'', ci_imageUrl = None, ci_recipeCount = 1\<rparr>"

definition exampleGarlicG :: CombinedIngredient where
  "exampleGarlicG =
     \<lparr>ci_name = js ''garlic (g)'', ci_displayName = js ''Garlic (g)'',
      ci_quantities = [\<lparr>pq_amount = 40, pq_unit = js ''g'',
                        pq_originalLabel = js ''Garlic (20g)''\<rparr>],
      ci_totalAmount = 40, ci_unit = js ''g'', ci_imageUrl = None, ci_recipeCount = 1\<rparr>"

definition exampleGarlicPcs :: CombinedIngredient where
  "exampleGarlicPcs =
     \<lparr>ci_name = js ''garlic (pcs)'', ci_displayName = js ''Garlic (pcs)'',
      ci_quantities = [\<lparr>pq_amount = 3, pq_unit = js ''pcs'',
                        pq_originalLabel = js ''Garlic clove''\<rparr>,
                       \<lparr>pq_amount = 4, pq_unit = js ''pcs'',
                        pq_originalLabel = js ''Garlic (2PC)''\<rparr>],
      ci_totalAmount = 7, ci_unit = js ''pcs'', ci_imageUrl = None, ci_recipeCount = 2\<rparr>"

text \<open>
  Grouping a list of key-value pairs with \<open>pushTo\<close>, as both loops of \<open>combineIngredients\<close>
  do, and the values a key collects.
\<close>

definition groupPairs :: "('k \<times> 'v) list \<Rightarrow> ('k \<times> 'v list) list" where
  "groupPairs pairs = foldl (\<lambda>m (k, v). pushTo k v m) [] pairs"

definition valsOf :: "('k \<times> 'v) list \<Rightarrow> 'k \<Rightarrow> 'v list" where
  "valsOf pairs k = map snd (filter (\<lambda>(k', v). k' = k) pairs)"

text \<open>
  The ingredient occurrences of the input in the order the loops visit them, each with
  the title of its recipe, and the named items the loop body makes of them.
\<close>

definition occurrences :: "ingredientList list \<Rightarrow> (jsstring \<times> ingredient) list" where
  "occurrences ils = concat (map (\<lambda>l. map (\<lambda>ing. (recipeTitle l, ing)) (ingredients l)) ils)"

abbreviation namedItem :: "host \<Rightarrow> jsstring \<Rightarrow> ingredient \<Rightarrow> error + (jsstring \<times> item)" where
  "namedItem H title ing \<equiv>
     (case mkItem H title ing of Inl e \<Rightarrow> Inl e | Inr it \<Rightarrow> Inr (ing_name ing, it))"

definition occurrenceItems :: "host \<Rightarrow> ingredientList list \<Rightarrow> error + (jsstring \<times> item) list" where
  "occurrenceItems H ils =
     collect (map (\<lambda>(title, ing). namedItem H title ing) (occurrences ils))"

text \<open>
  The rows the specification describes, written from its words: the items of one
  ingredient name; one row per unit among them, with the suffix \<^verbatim>\<open> (unit)\<close> on name and
  display name when the name has more than one unit; the display name is the name with
  its first character upper-cased; the recipe count is the number of distinct recipe
  titles among the items of the row.
\<close>

definition itemsNamed :: "(jsstring \<times> item) list \<Rightarrow> jsstring \<Rightarrow> item list" where
  "itemsNamed pairs name = map snd (filter (\<lambda>(n, it). n = name) pairs)"

definition specRow :: "host \<Rightarrow> jsstring \<Rightarrow> jsstring \<Rightarrow> jsstring \<Rightarrow> item list \<Rightarrow> CombinedIngredient" where
  "specRow H name suffix unit its =
     \<lparr>ci_name = name @ suffix,
      ci_displayName = (toUpperCase H (take 1 name) @ drop 1 name) @ suffix,
      ci_quantities = map (\<lambda>it. \<lparr>pq_amount = it_parsedAmount it, pq_unit = unit,
                                  pq_originalLabel = it_label it\<rparr>) its,
      ci_totalAmount = sum_list (map it_parsedAmount its),
      ci_unit = unit,
      ci_imageUrl = (case its of [] \<Rightarrow> None | it # _ \<Rightarrow> it_imageUrl it),
      ci_recipeCount = card (set (map it_recipeTitle its))\<rparr>"

definition specRowsFor :: "host \<Rightarrow> jsstring \<Rightarrow> item list \<Rightarrow> CombinedIngredient list" where
  "specRowsFor H name its =
     (let units = remdups (map it_unit its) in
      if length units = 1
      then map (\<lambda>u. specRow H name [] u (filter (\<lambda>it. it_unit it = u) its)) units
      else map (\<lambda>u. specRow H name (js '' ('' @ u @ js '')'') u
                       (filter (\<lambda>it. it_unit it = u) its)) units)"

definition specRows :: "host \<Rightarrow> (jsstring \<times> item) list \<Rightarrow> CombinedIngredient list" where
  "specRows H pairs =
     concat (map (\<lambda>name. specRowsFor H name (itemsNamed pairs name)) (remdups (map fst pairs)))"

text \<open>A line of an index, and the lines of a recipe body, for concrete runs.\<close>

definition exampleIndexLine :: jsstring where
  "exampleIndexLine = js ''POLLO AL HORNO '' @ [183] @ js '' 12''"

definition lineHarina :: jsstring where
  "lineHarina = js ''2 tazas de harina''"

definition lineAzucar :: jsstring where
  "lineAzucar = js ''1 taza de az'' @ [250] @ js ''car''"

definition lineMezclar :: jsstring where
  "lineMezclar = js ''Mezclar los ingredientes secos.''"

definition lineHornear :: jsstring where
  "lineHornear = js ''Hornear a 180 grados.''"

definition lineHuevos :: jsstring where
  "lineHuevos = js ''2 huevos''"

definition exampleBody :: jsstring where
  "exampleBody = join [10] [lineHarina, lineAzucar, [], lineMezclar, lineHornear]"

text \<open>A string with two hyphens in a row.\<close>

fun doubled :: "jsstring \<Rightarrow> bool" where
  "doubled (x # y # ys) \<longleftrightarrow> (x = 45 \<and> y = 45) \<or> doubled (y # ys)"
| "doubled [x] \<longleftrightarrow> False"
| "doubled [] \<longleftrightarrow> False"

text \<open>Removing one hyphen at the end of a string.\<close>

definition dropLastHyphen :: "jsstring \<Rightarrow> jsstring" where
  "dropLastHyphen s = (if s \<noteq> [] \<and> last s = 45 then butlast s else s)"

text \<open>The characters of a slug: \<^verbatim>\<open>[a-z0-9-]\<close>.\<close>

definition slugChar :: "jschar \<Rightarrow> bool" where
  "slugChar c \<longleftrightarrow> (97 \<le> c \<and> c \<le> 122) \<or> (48 \<le> c \<and> c \<le> 57) \<or> c = 45"

definition exampleTitle :: jsstring where
  "exampleTitle = js ''  POLLO -- al  Horno! ''"

text \<open>The text of an input file, with an index, for concrete runs, and its two recipes.\<close>

definition lineIndex :: jsstring where
  "lineIndex = js ''INDEX''"

definition lineA :: jsstring where
  "lineA = js ''A''"

definition lineArroz :: jsstring where
  "lineArroz = js ''Arroz '' @ [183] @ js '' 3''"

definition titlePollo :: jsstring where
  "titlePollo = js ''POLLO AL HORNO''"

definition titleSopa :: jsstring where
  "titleSopa = js ''SOPA''"

definition lineBlank :: jsstring where
  "lineBlank = js ''   ''"

definition titleSopaAjo :: jsstring where
  "titleSopaAjo = js ''SOPA DE AJO''"

definition lineHervir :: jsstring where
  "lineHervir = js ''Hervir todo.''"

definition exampleText :: jsstring where
  "exampleText =
     join [10] [lineIndex, lineA, lineArroz, [], titlePollo, lineHarina, lineAzucar, [],
                lineMezclar, lineHornear, titleSopa, lineBlank, titleSopaAjo, lineHervir, []]"

definition exampleRecipePollo :: Recipe where
  "exampleRecipePollo =
     \<lparr>rec_title = titlePollo, rec_slug = js ''pollo-al-horno'',
      rec_ingredientes = Some (lineHarina @ [10] @ lineAzucar),
      rec_metodo = Some (lineMezclar @ [10, 10] @ lineHornear),
      rec_content = None\<rparr>"

definition exampleRecipeSopa :: Recipe where
  "exampleRecipeSopa =
     \<lparr>rec_title = titleSopaAjo, rec_slug = js ''sopa-de-ajo'',
      rec_ingredientes = None, rec_metodo = None, rec_content = Some lineHervir\<rparr>"

section \<open>Properties of the matcher\<close>

text \<open>What a match of each construct consumes, and what it leaves of the captures.\<close>

lemma oneChar_mem:
  "st' \<in> set (oneChar ci c (p, s, caps)) \<longleftrightarrow>
     (\<exists>x xs. s = x # xs \<and> inSet ci c x \<and> st' = (Some x, xs, caps))"
  by (cases s) auto

lemma starRuns_mem:
  "(p', s', caps') \<in> set (starRuns ci c (p, s, caps)) \<Longrightarrow>
     caps' = caps \<and> (\<exists>w. s = w @ s' \<and> list_all (inSet ci c) w)"
proof (induction s arbitrary: p)
  case Nil
  then show ?case by simp
next
  case (Cons x xs)
  show ?case
  proof (cases "(p', s', caps') = (p, x # xs, caps)")
    case True
    then show ?thesis by simp
  next
    case False
    with Cons.prems have a: "inSet ci c x" and b: "(p', s', caps') \<in> set (starRuns ci c (Some x, xs, caps))"
      by (auto split: if_splits)
    from Cons.IH[OF b] obtain w where "caps' = caps" "xs = w @ s'" "list_all (inSet ci c) w" by blast
    with a show ?thesis by (intro conjI exI[of _ "x # w"]) auto
  qed
qed

lemma plus_mem:
  "(p', s', caps') \<in> set (ms ci (Plus c) (p, s, caps)) \<Longrightarrow>
     caps' = caps \<and> (\<exists>w. w \<noteq> [] \<and> s = w @ s' \<and> list_all (inSet ci c) w)"
proof -
  assume "(p', s', caps') \<in> set (ms ci (Plus c) (p, s, caps))"
  then obtain x xs where s: "s = x # xs" and x: "inSet ci c x"
    and m: "(p', s', caps') \<in> set (starRuns ci c (Some x, xs, caps))"
    by (auto simp: oneChar_mem)
  from starRuns_mem[OF m] obtain w where "caps' = caps" "xs = w @ s'" "list_all (inSet ci c) w" by blast
  with s x show ?thesis by (intro conjI exI[of _ "x # w"]) auto
qed

lemma matchLit_Some:
  "matchLit ci w p s = Some (p', s') \<Longrightarrow>
     \<exists>v. s = v @ s' \<and> list_all2 (\<lambda>c x. inAtom ci (Ch c) x) w v"
proof (induction w arbitrary: p s)
  case Nil
  then show ?case by simp
next
  case (Cons c cs)
  then obtain x xs where s: "s = x # xs" by (cases s) auto
  with Cons.prems have a: "inAtom ci (Ch c) x" and b: "matchLit ci cs (Some x) xs = Some (p', s')"
    by (auto split: if_splits)
  from Cons.IH[OF b] obtain v where "xs = v @ s'" "list_all2 (\<lambda>c x. inAtom ci (Ch c) x) cs v" by blast
  with s a show ?case by (intro exI[of _ "x # v"]) auto
qed

lemma lit_mem:
  "(p', s', caps') \<in> set (ms ci (Lit w) (p, s, caps)) \<Longrightarrow>
     caps' = caps \<and> (\<exists>v. s = v @ s' \<and> list_all2 (\<lambda>c x. inAtom ci (Ch c) x) w v)"
proof -
  assume a: "(p', s', caps') \<in> set (ms ci (Lit w) (p, s, caps))"
  then have m: "matchLit ci w p s = Some (p', s')" and c: "caps' = caps"
    by (auto split: option.splits)
  from matchLit_Some[OF m] c show ?thesis by simp
qed

text \<open>General: every match consumes a prefix.\<close>
lemma ms_suffix:
  "(p', s', caps') \<in> set (ms ci r (p, s, caps)) \<Longrightarrow> \<exists>w. s = w @ s'"
proof (induction r arbitrary: p s caps p' s' caps')
  case (One c) then show ?case by (auto simp: oneChar_mem)
next
  case (Lit w) then show ?case using lit_mem by blast
next
  case (Seq a b)
  then obtain p1 s1 c1 where 1: "(p1, s1, c1) \<in> set (ms ci a (p, s, caps))"
     and 2: "(p', s', caps') \<in> set (ms ci b (p1, s1, c1))" by auto
  from Seq.IH(1)[OF 1] Seq.IH(2)[OF 2] show ?case by auto
next
  case (Alt a b) then show ?case by auto
next
  case (Opt a) then show ?case by auto
next
  case (Star c) then show ?case using starRuns_mem by fastforce
next
  case (Plus c) then show ?case using plus_mem by blast
next
  case (Grp n a) then show ?case by fastforce
qed (auto split: if_splits)

lemma search_Some:
  "search ci r p s = Some (sk, st) \<Longrightarrow>
     \<exists>p0 t. s = sk @ t \<and> st \<in> set (ms ci r (p0, t, []))"
proof (induction s arbitrary: p sk)
  case Nil
  then have "sk = []" "st \<in> set (ms ci r (p, [], []))" by (auto split: list.splits)
  then show ?case by (intro exI[of _ p] exI[of _ "[]"]) auto
next
  case (Cons x xs)
  show ?case
  proof (cases "ms ci r (p, x # xs, [])")
    case Nil
    with Cons.prems obtain sk' where sk: "sk = x # sk'" and s: "search ci r (Some x) xs = Some (sk', st)"
      by (auto split: option.splits)
    from Cons.IH[OF s] obtain p0 t where "xs = sk' @ t" "st \<in> set (ms ci r (p0, t, []))" by blast
    with sk show ?thesis by (intro exI[of _ p0] exI[of _ t]) auto
  next
    case (Cons st' sts)
    with Cons.prems have "sk = []" "st = st'" by auto
    with Cons show ?thesis by (intro exI[of _ p] exI[of _ "x # xs"]) auto
  qed
qed

section \<open>The captures of the quantity patterns\<close>

lemma seq_mem: "st' \<in> set (ms ci (Seq a b) st) \<longleftrightarrow>
    (\<exists>p1 s1 c1. (p1, s1, c1) \<in> set (ms ci a st) \<and> st' \<in> set (ms ci b (p1, s1, c1)))"
  by auto

lemma alt_mem: "st' \<in> set (ms ci (Alt a b) st) \<longleftrightarrow> st' \<in> set (ms ci a st) \<or> st' \<in> set (ms ci b st)"
  by simp

lemma opt_mem: "st' \<in> set (ms ci (Opt a) st) \<longleftrightarrow> st' \<in> set (ms ci a st) \<or> st' = st"
  by auto

lemma grp_mem: "st' \<in> set (ms ci (Grp n a) (p, s, caps)) \<longleftrightarrow>
    (\<exists>p' s' caps'. (p', s', caps') \<in> set (ms ci a (p, s, caps)) \<and>
       st' = (p', s', (n, take (length s - length s') s) # caps'))"
  by force

lemma take_consumed: "take (length (w @ s') - length s') (w @ s') = w"
  by simp

lemma digits_inSet: "list_all (inSet ci digit) w \<longleftrightarrow> list_all isDigit w"
  by (induction w) auto

lemma spaces_inSet: "list_all (inSet ci space) w \<longleftrightarrow> list_all isSpace w"
  by (induction w) auto

lemma canon_upper:
  "65 \<le> u \<Longrightarrow> u \<le> 90 \<Longrightarrow> canonicalize x = u \<longleftrightarrow> x = u \<or> x = u + 32"
  by (auto simp: canonicalize_def)

lemma canon_lower:
  "97 \<le> c \<Longrightarrow> c \<le> 122 \<Longrightarrow> canonicalize x = canonicalize c \<longleftrightarrow> x = c \<or> x + 32 = c"
  by (auto simp: canonicalize_def)

lemma canon_plain:
  "c < 65 \<or> (90 < c \<and> c < 97) \<or> (122 < c \<and> c < 192) \<Longrightarrow> canonicalize x = canonicalize c \<longleftrightarrow> x = c"
  by (auto simp: canonicalize_def)

lemma takeWhile_digits: "list_all isDigit ds \<Longrightarrow> takeWhile isDigit (ds @ 46 # fs) = ds"
  by (induction ds) (auto simp: isDigit_def)

lemma dropWhile_digits: "list_all isDigit ds \<Longrightarrow> dropWhile isDigit (ds @ 46 # fs) = 46 # fs"
  by (induction ds) (auto simp: isDigit_def)

lemma takeWhile_all: "list_all P ds \<Longrightarrow> takeWhile P ds = ds"
  by (induction ds) auto

lemma dropWhile_all: "list_all P ds \<Longrightarrow> dropWhile P ds = []"
  by (induction ds) auto

lemma parseFloat_decimal: "isDecimal w \<Longrightarrow> \<exists>v. parseFloat w = Some v \<and> 0 \<le> v"
  unfolding isDecimal_def
proof (elim disjE exE conjE)
  assume "allDigits w"
  then show ?thesis
    by (auto simp: parseFloat_def allDigits_def takeWhile_all dropWhile_all Let_def)
next
  fix ds fs assume "w = ds @ 46 # fs" "allDigits ds" "allDigits fs"
  then show ?thesis
    by (auto simp: parseFloat_def allDigits_def takeWhile_digits dropWhile_digits Let_def)
qed

lemma parseInt_digits: "allDigits w \<Longrightarrow> \<exists>v. parseInt w = Some v \<and> 0 \<le> v"
  by (simp add: parseInt_def)

lemma plus_digit_mem:
  "(p', s', caps') \<in> set (ms ci (Plus digit) (p, s, caps)) \<Longrightarrow>
     caps' = caps \<and> (\<exists>w. s = w @ s' \<and> allDigits w)"
  by (drule plus_mem) (auto simp: allDigits_def digits_inSet)

lemma lit_dot_mem:
  "(p', s', caps') \<in> set (ms True (Lit (js ''.'')) (p, s, caps)) \<Longrightarrow>
     caps' = caps \<and> s = 46 # s'"
  by (drule lit_mem) (auto simp: js_def list_all2_Cons1 canon_plain)

lemma rxNumber_mem:
  assumes "(p', s', caps') \<in> set (ms True rxNumber (p, s, caps))"
  shows "caps' = caps \<and> (\<exists>w. s = w @ s' \<and> isDecimal w)"
proof -
  from assms obtain p1 s1 c1 where
    1: "(p1, s1, c1) \<in> set (ms True (Plus digit) (p, s, caps))" and
    2: "(p', s', caps') \<in> set (ms True (Opt (Seq (Lit (js ''.'')) (Plus digit))) (p1, s1, c1))"
    unfolding rxNumber_def seq_mem by blast
  from plus_digit_mem[OF 1] obtain ds where c1: "c1 = caps" and s: "s = ds @ s1" and ds: "allDigits ds"
    by blast
  from 2 consider (skip) "(p', s', caps') = (p1, s1, c1)"
    | (frac) p2 s2 c2 where "(p2, s2, c2) \<in> set (ms True (Lit (js ''.'')) (p1, s1, c1))"
        "(p', s', caps') \<in> set (ms True (Plus digit) (p2, s2, c2))"
    unfolding opt_mem seq_mem by blast
  then show ?thesis
  proof cases
    case skip
    with c1 s ds show ?thesis by (auto simp: isDecimal_def)
  next
    case frac
    from lit_dot_mem[OF frac(1)] have c2: "c2 = c1" and s1: "s1 = 46 # s2" by auto
    from plus_digit_mem[OF frac(2)] obtain fs where c': "caps' = c2" and s2: "s2 = fs @ s'" and fs: "allDigits fs"
      by blast
    have "s = (ds @ 46 # fs) @ s'" using s s1 s2 by simp
    moreover have "isDecimal (ds @ 46 # fs)" using ds fs by (auto simp: isDecimal_def)
    ultimately show ?thesis using c' c2 c1 by blast
  qed
qed

lemma lit_lower_mem:
  assumes "(p', s', caps') \<in> set (ms True (Lit w) (p, s, caps))"
    and "list_all (\<lambda>c. 97 \<le> c \<and> c \<le> 122) w"
  shows "caps' = caps \<and> (\<exists>v. s = v @ s' \<and> isAscii v \<and> map asciiLower v = w)"
proof -
  from lit_mem[OF assms(1)] obtain v where c: "caps' = caps" and s: "s = v @ s'"
    and v: "list_all2 (\<lambda>c x. inAtom True (Ch c) x) w v" by blast
  from v assms(2) have "isAscii v \<and> map asciiLower v = w"
  proof (induction w v rule: list_all2_induct)
    case Nil
    then show ?case by (simp add: isAscii_def)
  next
    case (Cons c cs x xs)
    then have "x = c \<or> x + 32 = c" "97 \<le> c" "c \<le> 122" by (auto simp: canon_lower)
    then have "x < 128 \<and> asciiLower x = c" by (auto simp: asciiLower_def)
    with Cons show ?case by (auto simp: isAscii_def)
  qed
  with c s show ?thesis by blast
qed

lemma rxUnit_mem:
  assumes "(p', s', caps') \<in> set (ms True rxUnit (p, s, caps))"
  shows "caps' = caps \<and> (\<exists>v. s = v @ s' \<and> isAscii v \<and> map asciiLower v \<in> set labelUnits)"
proof -
  have low: "list_all (\<lambda>c. 97 \<le> c \<and> c \<le> 122) (js ''g'')" "list_all (\<lambda>c. 97 \<le> c \<and> c \<le> 122) (js ''kg'')"
    "list_all (\<lambda>c. 97 \<le> c \<and> c \<le> 122) (js ''ml'')" "list_all (\<lambda>c. 97 \<le> c \<and> c \<le> 122) (js ''l'')"
    "list_all (\<lambda>c. 97 \<le> c \<and> c \<le> 122) (js ''tsp'')" "list_all (\<lambda>c. 97 \<le> c \<and> c \<le> 122) (js ''tbsp'')"
    "list_all (\<lambda>c. 97 \<le> c \<and> c \<le> 122) (js ''pc'')" "list_all (\<lambda>c. 97 \<le> c \<and> c \<le> 122) (js ''s'')"
    by (simp_all add: js_def)
  from assms consider
      (g) "(p', s', caps') \<in> set (ms True (Lit (js ''g'')) (p, s, caps))"
    | (kg) "(p', s', caps') \<in> set (ms True (Lit (js ''kg'')) (p, s, caps))"
    | (ml) "(p', s', caps') \<in> set (ms True (Lit (js ''ml'')) (p, s, caps))"
    | (l) "(p', s', caps') \<in> set (ms True (Lit (js ''l'')) (p, s, caps))"
    | (tsp) "(p', s', caps') \<in> set (ms True (Lit (js ''tsp'')) (p, s, caps))"
    | (tbsp) "(p', s', caps') \<in> set (ms True (Lit (js ''tbsp'')) (p, s, caps))"
    | (pcs) "(p', s', caps') \<in> set (ms True (Seq (Lit (js ''pc'')) (Opt (Lit (js ''s'')))) (p, s, caps))"
    unfolding rxUnit_def alts.simps alt_mem by blast
  then show ?thesis
  proof cases
    case g from lit_lower_mem[OF g low(1)] show ?thesis by (auto simp: labelUnits_def)
  next
    case kg from lit_lower_mem[OF kg low(2)] show ?thesis by (auto simp: labelUnits_def)
  next
    case ml from lit_lower_mem[OF ml low(3)] show ?thesis by (auto simp: labelUnits_def)
  next
    case l from lit_lower_mem[OF l low(4)] show ?thesis by (auto simp: labelUnits_def)
  next
    case tsp from lit_lower_mem[OF tsp low(5)] show ?thesis by (auto simp: labelUnits_def)
  next
    case tbsp from lit_lower_mem[OF tbsp low(6)] show ?thesis by (auto simp: labelUnits_def)
  next
    case pcs
    then obtain p1 s1 c1 where 1: "(p1, s1, c1) \<in> set (ms True (Lit (js ''pc'')) (p, s, caps))"
      and 2: "(p', s', caps') \<in> set (ms True (Opt (Lit (js ''s''))) (p1, s1, c1))"
      unfolding seq_mem by blast
    from lit_lower_mem[OF 1 low(7)] obtain v where c1: "c1 = caps" and s: "s = v @ s1"
      and v: "isAscii v" "map asciiLower v = js ''pc''" by blast
    from 2 consider (skip) "(p', s', caps') = (p1, s1, c1)"
      | (s) "(p', s', caps') \<in> set (ms True (Lit (js ''s'')) (p1, s1, c1))" unfolding opt_mem by blast
    then show ?thesis
    proof cases
      case skip
      with c1 s v show ?thesis by (auto simp: labelUnits_def)
    next
      case s
      from lit_lower_mem[OF s low(8)] obtain v' where "caps' = c1" "s1 = v' @ s'"
        "isAscii v'" "map asciiLower v' = js ''s''" by blast
      with c1 \<open>s = v @ s1\<close> v have "caps' = caps" "s = (v @ v') @ s'" "isAscii (v @ v')"
        "map asciiLower (v @ v') = js ''pcs''" by (auto simp: isAscii_def js_def)
      then show ?thesis unfolding labelUnits_def by (metis list.set_intros(1) list.set_intros(2))
    qed
  qed
qed

lemma match_Some:
  "match ci r s = Some caps \<Longrightarrow> \<exists>p0 t p' s'. (p', s', caps) \<in> set (ms ci r (p0, t, []))"
  unfolding match_def by (auto dest!: search_Some)

lemma grp_mem_number:
  assumes "(p', s', caps') \<in> set (ms True (Grp n rxNumber) (p, s, caps))"
  shows "\<exists>a. caps' = (n, a) # caps \<and> isDecimal a"
proof -
  from assms obtain p1 s1 c1 where 1: "(p1, s1, c1) \<in> set (ms True rxNumber (p, s, caps))"
    and 2: "(p', s', caps') = (p1, s1, (n, take (length s - length s1) s) # c1)"
    unfolding grp_mem by blast
  from rxNumber_mem[OF 1] obtain w where "c1 = caps" "s = w @ s1" "isDecimal w" by blast
  with 2 show ?thesis by simp
qed

lemma grp_mem_digits:
  assumes "(p', s', caps') \<in> set (ms True (Grp n (Plus digit)) (p, s, caps))"
  shows "\<exists>a. caps' = (n, a) # caps \<and> allDigits a"
proof -
  from assms obtain p1 s1 c1 where 1: "(p1, s1, c1) \<in> set (ms True (Plus digit) (p, s, caps))"
    and 2: "(p', s', caps') = (p1, s1, (n, take (length s - length s1) s) # c1)"
    unfolding grp_mem by blast
  from plus_digit_mem[OF 1] obtain w where "c1 = caps" "s = w @ s1" "allDigits w" by blast
  with 2 show ?thesis by simp
qed

lemma grp_mem_unit:
  assumes "(p', s', caps') \<in> set (ms True (Grp n rxUnit) (p, s, caps))"
  shows "\<exists>u. caps' = (n, u) # caps \<and> isAscii u \<and> map asciiLower u \<in> set labelUnits"
proof -
  from assms obtain p1 s1 c1 where 1: "(p1, s1, c1) \<in> set (ms True rxUnit (p, s, caps))"
    and 2: "(p', s', caps') = (p1, s1, (n, take (length s - length s1) s) # c1)"
    unfolding grp_mem by blast
  from rxUnit_mem[OF 1] obtain w where "c1 = caps" "s = w @ s1" "isAscii w" "map asciiLower w \<in> set labelUnits" by blast
  with 2 show ?thesis by simp
qed

lemma caps_same_lit: "(p', s', caps') \<in> set (ms ci (Lit w) (p, s, caps)) \<Longrightarrow> caps' = caps"
  by (auto split: option.splits)

lemma caps_same_star: "(p', s', caps') \<in> set (ms ci (Star c) (p, s, caps)) \<Longrightarrow> caps' = caps"
  using starRuns_mem by fastforce

lemma caps_same_plus: "(p', s', caps') \<in> set (ms ci (Plus c) (p, s, caps)) \<Longrightarrow> caps' = caps"
  using plus_mem by blast

lemma caps_same_eol: "(p', s', caps') \<in> set (ms ci Eol (p, s, caps)) \<Longrightarrow> caps' = caps"
  by (auto split: if_splits)

lemma caps_same_bol: "(p', s', caps') \<in> set (ms ci Bol (p, s, caps)) \<Longrightarrow> caps' = caps \<and> s' = s"
  by (auto split: if_splits)

lemma caps_same_opt_lit: "(p', s', caps') \<in> set (ms ci (Opt (Lit w)) (p, s, caps)) \<Longrightarrow> caps' = caps"
  unfolding opt_mem using caps_same_lit by blast

lemma match_rxParen:
  assumes "match True rxParen s = Some caps"
  shows "\<exists>a u. caps = [(2, u), (1, a)] \<and> isDecimal a \<and> isAscii u \<and> map asciiLower u \<in> set labelUnits"
proof -
  from match_Some[OF assms] obtain p0 t p' s' where
    "(p', s', caps) \<in> set (ms True rxParen (p0, t, []))" by blast
  then obtain p1 s1 c1 p2 s2 c2 p3 s3 c3 p4 s4 c4 where
    1: "(p1, s1, c1) \<in> set (ms True (Lit (js ''('')) (p0, t, []))" and
    2: "(p2, s2, c2) \<in> set (ms True (Grp 1 rxNumber) (p1, s1, c1))" and
    3: "(p3, s3, c3) \<in> set (ms True (Star space) (p2, s2, c2))" and
    4: "(p4, s4, c4) \<in> set (ms True (Grp 2 rxUnit) (p3, s3, c3))" and
    5: "(p', s', caps) \<in> set (ms True (Lit (js '')'')) (p4, s4, c4))"
    unfolding rxParen_def seqs.simps seq_mem by blast
  from caps_same_lit[OF 1] have c1: "c1 = []" .
  from grp_mem_number[OF 2] c1 obtain a where c2: "c2 = [(1, a)]" and a: "isDecimal a" by blast
  from caps_same_star[OF 3] c2 have c3: "c3 = [(1, a)]" by simp
  from grp_mem_unit[OF 4] c3 obtain u where c4: "c4 = [(2, u), (1, a)]"
    and u: "isAscii u" "map asciiLower u \<in> set labelUnits" by blast
  from caps_same_lit[OF 5] c4 have "caps = [(2, u), (1, a)]" by simp
  with a u show ?thesis by blast
qed

lemma match_rxParenNum:
  assumes "match True rxParenNum s = Some caps"
  shows "\<exists>a. caps = [(1, a)] \<and> isDecimal a"
proof -
  from match_Some[OF assms] obtain p0 t p' s' where
    "(p', s', caps) \<in> set (ms True rxParenNum (p0, t, []))" by blast
  then obtain p1 s1 c1 p2 s2 c2 where
    1: "(p1, s1, c1) \<in> set (ms True (Lit (js ''('')) (p0, t, []))" and
    2: "(p2, s2, c2) \<in> set (ms True (Grp 1 rxNumber) (p1, s1, c1))" and
    3: "(p', s', caps) \<in> set (ms True (Lit (js '')'')) (p2, s2, c2))"
    unfolding rxParenNum_def seqs.simps seq_mem by blast
  from caps_same_lit[OF 1] have c1: "c1 = []" .
  from grp_mem_number[OF 2] c1 obtain a where c2: "c2 = [(1, a)]" and a: "isDecimal a" by blast
  from caps_same_lit[OF 3] c2 have "caps = [(1, a)]" by simp
  with a show ?thesis by blast
qed

lemma match_rxXSuffix:
  assumes "match True rxXSuffix s = Some caps"
  shows "\<exists>a. caps = [(1, a)] \<and> allDigits a"
proof -
  from match_Some[OF assms] obtain p0 t p' s' where
    "(p', s', caps) \<in> set (ms True rxXSuffix (p0, t, []))" by blast
  then obtain p1 s1 c1 p2 s2 c2 p3 s3 c3 where
    1: "(p1, s1, c1) \<in> set (ms True (Lit (js ''x'')) (p0, t, []))" and
    2: "(p2, s2, c2) \<in> set (ms True (Star space) (p1, s1, c1))" and
    3: "(p3, s3, c3) \<in> set (ms True (Grp 1 (Plus digit)) (p2, s2, c2))" and
    4: "(p', s', caps) \<in> set (ms True Eol (p3, s3, c3))"
    unfolding rxXSuffix_def seqs.simps seq_mem by blast
  from caps_same_lit[OF 1] have c1: "c1 = []" .
  from caps_same_star[OF 2] c1 have c2: "c2 = []" by simp
  from grp_mem_digits[OF 3] c2 obtain a where c3: "c3 = [(1, a)]" and a: "allDigits a" by blast
  from caps_same_eol[OF 4] c3 have "caps = [(1, a)]" by simp
  with a show ?thesis by blast
qed

lemma match_rxLeadingNum:
  assumes "match True rxLeadingNum s = Some caps"
  shows "\<exists>a. caps = [(1, a)] \<and> allDigits a"
proof -
  from match_Some[OF assms] obtain p0 t p' s' where
    "(p', s', caps) \<in> set (ms True rxLeadingNum (p0, t, []))" by blast
  then obtain p1 s1 c1 p2 s2 c2 p3 s3 c3 p4 s4 c4 where
    1: "(p1, s1, c1) \<in> set (ms True Bol (p0, t, []))" and
    2: "(p2, s2, c2) \<in> set (ms True (Grp 1 (Plus digit)) (p1, s1, c1))" and
    3: "(p3, s3, c3) \<in> set (ms True (Star space) (p2, s2, c2))" and
    4: "(p4, s4, c4) \<in> set (ms True (Opt (Lit (js ''x''))) (p3, s3, c3))" and
    5: "(p', s', caps) \<in> set (ms True (Plus space) (p4, s4, c4))"
    unfolding rxLeadingNum_def seqs.simps seq_mem by blast
  from caps_same_bol[OF 1] have c1: "c1 = []" by simp
  from grp_mem_digits[OF 2] c1 obtain a where c2: "c2 = [(1, a)]" and a: "allDigits a" by blast
  from caps_same_star[OF 3] c2 have c3: "c3 = [(1, a)]" by simp
  from caps_same_opt_lit[OF 4] c3 have c4: "c4 = [(1, a)]" by simp
  from caps_same_plus[OF 5] c4 have "caps = [(1, a)]" by simp
  with a show ?thesis by blast
qed

lemma lower_labelUnits: "u \<in> set labelUnits \<Longrightarrow> isAscii u \<and> map asciiLower u = u"
  by (auto simp: labelUnits_def js_def isAscii_def asciiLower_def)

lemma pcs_labelUnits: "js ''pcs'' \<in> set labelUnits"
  by (simp add: labelUnits_def)

lemma parse_cases:
  "\<exists>q. parseQuantityFromLabel H label = Inr q \<and> lq_unit q \<in> set labelUnits \<and> 0 \<le> lq_amount q"
proof -
  define c where "c = replaceFirst True rxX0 [] label"
  show ?thesis
  proof (cases "match True rxParen c")
    case (Some m)
    from match_rxParen[OF Some] obtain a u where m: "m = [(2, u), (1, a)]" and a: "isDecimal a"
      and u: "isAscii u" "map asciiLower u \<in> set labelUnits" by blast
    from parseFloat_decimal[OF a] obtain v where v: "parseFloat a = Some v" "0 \<le> v" by blast
    show ?thesis using Some m v u
      by (simp add: parseQuantityFromLabel_def c_def[symmetric] group_def numberOf_def toLowerCase_def)
  next
    case none1: None
    show ?thesis
    proof (cases "match True rxParenNum c")
      case (Some m)
      from match_rxParenNum[OF Some] obtain a where m: "m = [(1, a)]" and a: "isDecimal a" by blast
      from parseFloat_decimal[OF a] obtain v where v: "parseFloat a = Some v" "0 \<le> v" by blast
      show ?thesis using none1 Some m v
        by (simp add: parseQuantityFromLabel_def c_def[symmetric] group_def numberOf_def pcs_labelUnits)
    next
      case none2: None
      show ?thesis
      proof (cases "match True rxXSuffix c")
        case (Some m)
        from match_rxXSuffix[OF Some] obtain a where m: "m = [(1, a)]" and a: "allDigits a" by blast
        from parseInt_digits[OF a] obtain v where v: "parseInt a = Some v" "0 \<le> v" by blast
        show ?thesis using none1 none2 Some m v
          by (simp add: parseQuantityFromLabel_def c_def[symmetric] group_def numberOf_def pcs_labelUnits)
      next
        case none3: None
        show ?thesis
        proof (cases "match True rxLeadingNum c")
          case (Some m)
          from match_rxLeadingNum[OF Some] obtain a where m: "m = [(1, a)]" and a: "allDigits a" by blast
          from parseInt_digits[OF a] obtain v where v: "parseInt a = Some v" "0 \<le> v" by blast
          show ?thesis using none1 none2 none3 Some m v
            by (simp add: parseQuantityFromLabel_def c_def[symmetric] group_def numberOf_def pcs_labelUnits)
        next
          case None
          show ?thesis using none1 none2 none3 None
            by (simp add: parseQuantityFromLabel_def c_def[symmetric] pcs_labelUnits)
        qed
      qed
    qed
  qed
qed

section \<open>Items, groups and records of the aggregator\<close>

lemma lower_canonicalUnits: "u \<in> set canonicalUnits \<Longrightarrow> toLowerCase H u = u"
  by (auto simp: canonicalUnits_def js_def isAscii_def asciiLower_def toLowerCase_def)

lemma measured_canonical: "u \<in> set measuredUnits \<Longrightarrow> u \<in> set canonicalUnits"
  unfolding measuredUnits_def canonicalUnits_def by auto

lemma pcs_canonical: "js ''pcs'' \<in> set canonicalUnits"
  unfolding canonicalUnits_def by simp

lemma coerce_unit:
  assumes "u \<in> set labelUnits"
  shows "(if toLowerCase H u \<in> set measuredUnits then u else js ''pcs'') \<in> set canonicalUnits"
proof -
  from lower_labelUnits[OF assms] have "toLowerCase H u = u" by (simp add: toLowerCase_def)
  then show ?thesis using measured_canonical pcs_canonical by auto
qed

text \<open>What mkItem returns.\<close>
lemma mkItem_Inr:
  "\<exists>q it. parseQuantityFromLabel H (ing_label ing) = Inr q \<and> mkItem H title ing = Inr it \<and>
     it_parsedAmount it = (if lq_isPackBased q then lq_amount q * ing_quantity ing else ing_quantity ing) \<and>
     it_unit it \<in> set canonicalUnits \<and> it_label it = ing_label ing \<and>
     it_portionQuantity it = ing_quantity ing \<and> it_recipeTitle it = title \<and>
     it_imageUrl it = ing_imageUrl ing"
proof -
  from parse_cases[of H "ing_label ing"] obtain q where
    q: "parseQuantityFromLabel H (ing_label ing) = Inr q" "lq_unit q \<in> set labelUnits" by blast
  from coerce_unit[OF q(2), of H] q(1) show ?thesis
    by (simp add: mkItem_def Let_def)
qed

lemma allVals_Nil: "allVals Q []"
  by (simp add: allVals_def)

lemma allVals_Cons:
  "allVals Q ((k, vs) # m) \<longleftrightarrow> vs \<noteq> [] \<and> (\<forall>v \<in> set vs. Q k v) \<and> allVals Q m"
  by (auto simp: allVals_def)

lemma allVals_pushTo: "allVals Q m \<Longrightarrow> Q k v \<Longrightarrow> allVals Q (pushTo k v m)"
proof (induction m)
  case Nil
  then show ?case by (simp add: allVals_Cons)
next
  case (Cons a m)
  obtain k' vs where a: "a = (k', vs)" by (cases a)
  with Cons show ?case by (auto simp: allVals_Cons)
qed

lemma allVals_foldl:
  "allVals Q m \<Longrightarrow> (\<And>x. x \<in> set xs \<Longrightarrow> Q (f x) (g x)) \<Longrightarrow>
     allVals Q (foldl (\<lambda>m x. pushTo (f x) (g x) m) m xs)"
  by (induction xs arbitrary: m) (auto simp: allVals_pushTo)

lemma addIngredients_Inr:
  "allVals (madeItem H) g \<Longrightarrow> \<exists>g'. addIngredients H title ings g = Inr g' \<and> allVals (madeItem H) g'"
proof (induction ings arbitrary: g)
  case Nil
  then show ?case by simp
next
  case (Cons ing ings)
  from mkItem_Inr[of H ing title] obtain q it where it: "mkItem H title ing = Inr it"
    and m: "parseQuantityFromLabel H (ing_label ing) = Inr q"
      "it_parsedAmount it = (if lq_isPackBased q then lq_amount q * ing_quantity ing else ing_quantity ing)"
      "it_unit it \<in> set canonicalUnits" "it_label it = ing_label ing" "it_portionQuantity it = ing_quantity ing"
    by blast
  then have "madeItem H (ing_name ing) it" by (simp add: madeItem_def)
  from Cons.IH[OF allVals_pushTo[OF Cons.prems this]] it show ?case by simp
qed

lemma addLists_Inr:
  "allVals (madeItem H) g \<Longrightarrow> \<exists>g'. addLists H ls g = Inr g' \<and> allVals (madeItem H) g'"
proof (induction ls arbitrary: g)
  case Nil
  then show ?case by simp
next
  case (Cons l ls)
  from addIngredients_Inr[OF Cons.prems, of "recipeTitle l" "ingredients l"] obtain g1 where
    "addIngredients H (recipeTitle l) (ingredients l) g = Inr g1" "allVals (madeItem H) g1" by blast
  with Cons.IH[of g1] show ?case by simp
qed

lemma collect_map_Inr: "collect (map Inr xs) = Inr xs"
  by (induction xs) auto

lemma collect_Inr_D: "collect rs = Inr xs \<Longrightarrow> rs = map Inr xs"
proof (induction rs arbitrary: xs)
  case Nil
  then show ?case by auto
next
  case (Cons r rs)
  show ?case
  proof (cases r)
    case (Inl e)
    with Cons.prems show ?thesis by simp
  next
    case (Inr x)
    with Cons.prems obtain ys where "collect rs = Inr ys" "xs = x # ys"
      by (auto split: sum.splits)
    with Cons.IH[of ys] Inr show ?thesis by simp
  qed
qed

lemma collect_Inr: "collect rs = Inr xs \<longleftrightarrow> rs = map Inr xs"
  using collect_Inr_D collect_map_Inr by blast

lemma collect_total: "(\<And>r. r \<in> set rs \<Longrightarrow> \<exists>x. r = Inr x) \<Longrightarrow> \<exists>xs. collect rs = Inr xs"
proof (induction rs)
  case Nil
  then show ?case by simp
next
  case (Cons r rs)
  then obtain x xs where "r = Inr x" "collect rs = Inr xs" by (metis list.set_intros)
  then show ?case by simp
qed

lemma insertBy_set: "set (insertBy cmp x ys) = insert x (set ys)"
  by (induction ys) auto

lemma sortBy_set_aux: "set (foldl (\<lambda>sorted x. insertBy cmp x sorted) acc xs) = set acc \<union> set xs"
  by (induction xs arbitrary: acc) (auto simp: insertBy_set)

lemma sortBy_set: "set (sortBy cmp xs) = set xs"
  by (simp add: sortBy_def sortBy_set_aux)

lemma byUnitOf_allVals:
  "(\<And>it. it \<in> set items \<Longrightarrow> P it) \<Longrightarrow>
     allVals (\<lambda>unit it. toLowerCase H (it_unit it) = unit \<and> P it) (byUnitOf H items)"
  unfolding byUnitOf_def by (rule allVals_foldl) (auto simp: allVals_Nil)

lemma mkCombined_Inr:
  "items \<noteq> [] \<Longrightarrow> \<exists>c. mkCombined H name suffix unit items = Inr c"
  by (cases items) (auto simp: mkCombined_def)

lemma emitGroup_Inr:
  assumes "items \<noteq> []"
  shows "\<exists>cs. emitGroup H (name, items) = Inr cs"
proof -
  have av: "allVals (\<lambda>unit it. toLowerCase H (it_unit it) = unit \<and> True) (byUnitOf H items)"
    by (rule byUnitOf_allVals) simp
  show ?thesis
  proof (cases "length (byUnitOf H items) = 1")
    case True
    then obtain unit its where b: "byUnitOf H items = [(unit, its)]"
      by (cases "byUnitOf H items") auto
    with av have "its \<noteq> []" by (simp add: allVals_def)
    from mkCombined_Inr[OF this, of H name "[]" unit] b show ?thesis
      by (auto simp: emitGroup_def)
  next
    case False
    have "\<exists>xs. collect (map (\<lambda>(unit, items'). mkCombined H name (js '' ('' @ unit @ js '')'') unit items')
                   (byUnitOf H items)) = Inr xs"
    proof (rule collect_total)
      fix r assume "r \<in> set (map (\<lambda>(unit, items'). mkCombined H name (js '' ('' @ unit @ js '')'') unit items')
                   (byUnitOf H items))"
      then obtain unit its where "(unit, its) \<in> set (byUnitOf H items)"
        and r: "r = mkCombined H name (js '' ('' @ unit @ js '')'') unit its" by auto
      with av have "its \<noteq> []" by (auto simp: allVals_def)
      from mkCombined_Inr[OF this] r show "\<exists>x. r = Inr x" by blast
    qed
    with False show ?thesis by (simp add: emitGroup_def)
  qed
qed

text \<open>Every emitted record comes from a unit group of a name bucket.\<close>
lemma emitGroup_mem:
  assumes "emitGroup H (name, items) = Inr cs" "c \<in> set cs"
  shows "\<exists>suffix unit its. (unit, its) \<in> set (byUnitOf H items) \<and>
           mkCombined H name suffix unit its = Inr c \<and>
           suffix = (if length (byUnitOf H items) = 1 then [] else js '' ('' @ unit @ js '')'')"
proof (cases "length (byUnitOf H items) = 1")
  case True
  then obtain unit its where b: "byUnitOf H items = [(unit, its)]"
    by (cases "byUnitOf H items") auto
  with assms have "mkCombined H name [] unit its = Inr c"
    by (auto simp: emitGroup_def split: sum.splits)
  with b True show ?thesis by auto
next
  case False
  with assms have "collect (map (\<lambda>(unit, items'). mkCombined H name (js '' ('' @ unit @ js '')'') unit items')
                   (byUnitOf H items)) = Inr cs" by (simp add: emitGroup_def)
  then have "map (\<lambda>(unit, items'). mkCombined H name (js '' ('' @ unit @ js '')'') unit items')
                   (byUnitOf H items) = map Inr cs" by (simp add: collect_Inr)
  then have "Inr c \<in> set (map (\<lambda>(unit, items'). mkCombined H name (js '' ('' @ unit @ js '')'') unit items')
                   (byUnitOf H items))" using assms(2) by simp
  then obtain unit its where "(unit, its) \<in> set (byUnitOf H items)"
    "mkCombined H name (js '' ('' @ unit @ js '')'') unit its = Inr c" by auto
  with False show ?thesis by auto
qed

lemma combine_total: "\<exists>res. combineIngredients H ils = Inr res"
proof -
  from addLists_Inr[OF allVals_Nil, of H ils] obtain g where
    g: "addLists H ils [] = Inr g" "allVals (madeItem H) g" by blast
  have "\<exists>xs. collect (map (emitGroup H) g) = Inr xs"
  proof (rule collect_total)
    fix r assume "r \<in> set (map (emitGroup H) g)"
    then obtain name items where "(name, items) \<in> set g" "r = emitGroup H (name, items)" by auto
    with g(2) emitGroup_Inr[of items H name] show "\<exists>x. r = Inr x" by (auto simp: allVals_def)
  qed
  with g(1) show ?thesis by (auto simp: combineIngredients_def)
qed

lemma combine_mem:
  assumes "combineIngredients H ils = Inr res" "c \<in> set res"
  shows "\<exists>g name items suffix unit its.
           addLists H ils [] = Inr g \<and> (name, items) \<in> set g \<and>
           (\<forall>it \<in> set items. madeItem H name it) \<and>
           (unit, its) \<in> set (byUnitOf H items) \<and>
           mkCombined H name suffix unit its = Inr c \<and>
           suffix = (if length (byUnitOf H items) = 1 then [] else js '' ('' @ unit @ js '')'')"
proof -
  from addLists_Inr[OF allVals_Nil, of H ils] obtain g where
    g: "addLists H ils [] = Inr g" "allVals (madeItem H) g" by blast
  with assms(1) obtain results where r: "collect (map (emitGroup H) g) = Inr results"
    and res: "res = sortBy (\<lambda>a b. localeCompare H (ci_displayName a) (ci_displayName b)) (concat results)"
    by (auto simp: combineIngredients_def split: sum.splits)
  from res assms(2) obtain cs where cs: "cs \<in> set results" "c \<in> set cs"
    by (auto simp: sortBy_set)
  from r have "map (emitGroup H) g = map Inr results" by (simp add: collect_Inr)
  with cs(1) have "Inr cs \<in> set (map (emitGroup H) g)" by simp
  then obtain name items where ni: "(name, items) \<in> set g" "emitGroup H (name, items) = Inr cs"
    by auto
  from emitGroup_mem[OF ni(2) cs(2)] obtain suffix unit its where
    "(unit, its) \<in> set (byUnitOf H items)" "mkCombined H name suffix unit its = Inr c"
    "suffix = (if length (byUnitOf H items) = 1 then [] else js '' ('' @ unit @ js '')'')" by blast
  moreover from g(2) ni(1) have "\<forall>it \<in> set items. madeItem H name it" by (auto simp: allVals_def)
  ultimately show ?thesis using g(1) ni(1) by blast
qed

lemmas parse_eval =
  parseQuantityFromLabel_def js_def replaceFirst_def rxX0_def rxParen_def rxParenNum_def
  rxXSuffix_def rxLeadingNum_def match_def isSpace_def isDigit_def canonicalize_def rxNumber_def
  rxUnit_def group_def numberOf_def parseFloat_def parseInt_def allDigits_def toLowerCase_def
  isAscii_def asciiLower_def digitsValue_def

lemma parse_chicken:
  "parseQuantityFromLabel H (js ''Chicken breast strips (250g)'') =
     Inr \<lparr>lq_amount = 250, lq_unit = js ''g'', lq_isPackBased = True\<rparr>"
  by (simp add: parse_eval)


lemma parse_garlic_g:
  "parseQuantityFromLabel H (js ''Garlic (20g)'') =
     Inr \<lparr>lq_amount = 20, lq_unit = js ''g'', lq_isPackBased = True\<rparr>"
  by (simp add: parse_eval)

lemma parse_garlic_clove:
  "parseQuantityFromLabel H (js ''Garlic clove'') =
     Inr \<lparr>lq_amount = 1, lq_unit = js ''pcs'', lq_isPackBased = False\<rparr>"
  by (simp add: parse_eval)

lemma parse_garlic_pc:
  "parseQuantityFromLabel H (js ''Garlic (2PC)'') =
     Inr \<lparr>lq_amount = 2, lq_unit = js ''pc'', lq_isPackBased = True\<rparr>"
  by (simp add: parse_eval)

lemma example_run:
  "combineIngredients asciiHost exampleLists =
     Inr [\<lparr>ci_name = js ''chicken'', ci_displayName = js ''Chicken'',
           ci_quantities = [\<lparr>pq_amount = 750, pq_unit = js ''g'',
                             pq_originalLabel = js ''Chicken breast strips (250g)''\<rparr>],
           ci_totalAmount = 750, ci_unit = js ''g'', ci_imageUrl = None, ci_recipeCount = 1\<rparr>,
          \<lparr>ci_name = js ''garlic (g)'', ci_displayName = js ''Garlic (g)'',
           ci_quantities = [\<lparr>pq_amount = 40, pq_unit = js ''g'',
                             pq_originalLabel = js ''Garlic (20g)''\<rparr>],
           ci_totalAmount = 40, ci_unit = js ''g'', ci_imageUrl = None, ci_recipeCount = 1\<rparr>,
          \<lparr>ci_name = js ''garlic (pcs)'', ci_displayName = js ''Garlic (pcs)'',
           ci_quantities = [\<lparr>pq_amount = 3, pq_unit = js ''pcs'',
                             pq_originalLabel = js ''Garlic clove''\<rparr>,
                            \<lparr>pq_amount = 4, pq_unit = js ''pcs'',
                             pq_originalLabel = js ''Garlic (2PC)''\<rparr>],
           ci_totalAmount = 7, ci_unit = js ''pcs'', ci_imageUrl = None, ci_recipeCount = 2\<rparr>]"
  unfolding combineIngredients_def exampleLists_def
  apply (simp add: mkItem_def parse_chicken parse_garlic_g parse_garlic_clove parse_garlic_pc)
  apply (simp add: emitGroup_def byUnitOf_def mkCombined_def getCleanDisplayName_def sortBy_def
      asciiHost_def measuredUnits_def toLowerCase_def toUpperCase_def isAscii_def asciiLower_def
      asciiUpper_def js_def)
  done

lemma example_rows:
  "combineIngredients asciiHost exampleLists = Inr [exampleChicken, exampleGarlicG, exampleGarlicPcs]"
  unfolding exampleChicken_def exampleGarlicG_def exampleGarlicPcs_def by (rule example_run)

lemma foldl_sum: "foldl (\<lambda>sum x. sum + f x) a xs = a + sum_list (map f xs)"
  by (induction xs arbitrary: a) (auto simp: add.assoc)

lemma mkCombined_fields:
  assumes "mkCombined H name suffix unit its = Inr c"
  shows "its \<noteq> []"
    and "ci_name c = name @ suffix"
    and "ci_displayName c = getCleanDisplayName H name (it_label (hd its)) @ suffix"
    and "ci_quantities c = map (\<lambda>item. \<lparr>pq_amount = it_parsedAmount item, pq_unit = it_unit item,
                               pq_originalLabel = it_label item\<rparr>) its"
    and "ci_totalAmount c = sum_list (map it_parsedAmount its)"
    and "ci_unit c = unit"
    and "ci_imageUrl c = it_imageUrl (hd its)"
    and "ci_recipeCount c = length (remdups (map it_recipeTitle its))"
  using assms by (cases its; auto simp: mkCombined_def foldl_sum)+

section \<open>Grouping with \<open>pushTo\<close>, and the rows of the specification\<close>

lemma pushTo_keys:
  "map fst (pushTo k v m) = (if k \<in> set (map fst m) then map fst m else map fst m @ [k])"
  by (induction m) force+

lemma pushTo_distinct: "distinct (map fst m) \<Longrightarrow> distinct (map fst (pushTo k v m))"
  by (simp add: pushTo_keys)

lemma pushTo_lookup:
  "map_of (pushTo k v m) k' =
     (if k' = k then Some ((case map_of m k of None \<Rightarrow> [] | Some vs \<Rightarrow> vs) @ [v])
      else map_of m k')"
  by (induction m) auto

lemma groupPairs_snoc: "groupPairs (pairs @ [(k, v)]) = pushTo k v (groupPairs pairs)"
  by (simp add: groupPairs_def)

lemma groupPairs_distinct: "distinct (map fst (groupPairs pairs))"
proof (induction pairs rule: rev_induct)
  case Nil
  then show ?case by (simp add: groupPairs_def)
next
  case (snoc x xs)
  obtain k v where "x = (k, v)" by (cases x)
  with snoc show ?case by (simp add: groupPairs_snoc pushTo_distinct)
qed

lemma groupPairs_lookup:
  "map_of (groupPairs pairs) k = (if k \<in> fst ` set pairs then Some (valsOf pairs k) else None)"
proof (induction pairs rule: rev_induct)
  case Nil
  then show ?case by (simp add: groupPairs_def)
next
  case (snoc x xs)
  obtain k' v where x: "x = (k', v)" by (cases x)
  show ?case
  proof (cases "k = k'")
    case True
    have "filter (\<lambda>(k'', v). k'' = k') xs = []" if "\<forall>x\<in>set xs. k' \<noteq> fst x"
      using that by (auto simp: filter_empty_conv)
    with True snoc x show ?thesis
      by (auto simp: groupPairs_snoc pushTo_lookup valsOf_def image_iff)
  next
    case False
    with snoc x show ?thesis
      by (auto simp: groupPairs_snoc pushTo_lookup valsOf_def)
  qed
qed

lemma groupPairs_mem:
  "(k, vs) \<in> set (groupPairs pairs) \<longleftrightarrow> k \<in> fst ` set pairs \<and> vs = valsOf pairs k"
proof -
  have "(k, vs) \<in> set (groupPairs pairs) \<longleftrightarrow> map_of (groupPairs pairs) k = Some vs"
    using groupPairs_distinct[of pairs] by simp
  then show ?thesis by (auto simp: groupPairs_lookup)
qed

text \<open>As a multiset, the groups are one entry per key.\<close>
lemma groupPairs_mset:
  "mset (groupPairs pairs) = mset (map (\<lambda>k. (k, valsOf pairs k)) (remdups (map fst pairs)))"
proof (rule set_eq_iff_mset_eq_distinct[THEN iffD1])
  show "distinct (groupPairs pairs)"
    using groupPairs_distinct[of pairs] by (simp add: distinct_map)
  show "distinct (map (\<lambda>k. (k, valsOf pairs k)) (remdups (map fst pairs)))"
    by (simp add: distinct_map inj_on_def)
  show "set (groupPairs pairs) = set (map (\<lambda>k. (k, valsOf pairs k)) (remdups (map fst pairs)))"
    by (force simp: groupPairs_mem)
qed

lemma groupPairs_length: "length (groupPairs pairs) = length (remdups (map fst pairs))"
  using groupPairs_mset[of pairs] by (metis length_map size_mset)

lemma groupPairs_single:
  assumes "length (remdups (map fst pairs)) = 1"
  shows "groupPairs pairs = map (\<lambda>k. (k, valsOf pairs k)) (remdups (map fst pairs))"
proof -
  from assms obtain k where k: "remdups (map fst pairs) = [k]"
    by (cases "remdups (map fst pairs)") auto
  from assms groupPairs_length[of pairs] obtain e where e: "groupPairs pairs = [e]"
    by (cases "groupPairs pairs") auto
  from groupPairs_mset[of pairs] k e have "e = (k, valsOf pairs k)" by simp
  with k e show ?thesis by simp
qed

lemma valsOf_nonempty: "k \<in> fst ` set pairs \<Longrightarrow> valsOf pairs k \<noteq> []"
  by (auto simp: valsOf_def filter_empty_conv)

lemma mset_concat_map_cong:
  "mset xs = mset ys \<Longrightarrow> mset (concat (map f xs)) = mset (concat (map f ys))"
proof -
  assume a: "mset xs = mset ys"
  have "mset (concat (map f zs)) = (\<Sum>z\<in>#mset zs. mset (f z))" for zs
    by (induction zs) auto
  with a show ?thesis by simp
qed

lemma insertBy_mset: "mset (insertBy cmp x ys) = add_mset x (mset ys)"
  by (induction ys) auto

lemma sortBy_mset_aux:
  "mset (foldl (\<lambda>sorted x. insertBy cmp x sorted) acc xs) = mset acc + mset xs"
  by (induction xs arbitrary: acc) (auto simp: insertBy_mset)

lemma sortBy_mset: "mset (sortBy cmp xs) = mset xs"
  by (simp add: sortBy_def sortBy_mset_aux)

lemma itemsNamed_valsOf: "itemsNamed pairs name = valsOf pairs name"
  by (simp add: itemsNamed_def valsOf_def)

lemma collect_append:
  "collect xs = Inr a \<Longrightarrow> collect ys = Inr b \<Longrightarrow> collect (xs @ ys) = Inr (a @ b)"
  by (simp add: collect_Inr)

lemma collect_append_D:
  "collect (xs @ ys) = Inr zs \<Longrightarrow>
     \<exists>a b. collect xs = Inr a \<and> collect ys = Inr b \<and> zs = a @ b"
  unfolding collect_Inr by (auto simp: append_eq_map_conv)

lemma addIngredients_pairs:
  "collect (map (namedItem H title) ings) = Inr ps \<Longrightarrow>
     addIngredients H title ings g = Inr (foldl (\<lambda>m (k, v). pushTo k v m) g ps)"
proof (induction ings arbitrary: g ps)
  case Nil
  then show ?case by simp
next
  case (Cons ing ings)
  from Cons.prems obtain it ps' where it: "mkItem H title ing = Inr it"
    and ps': "collect (map (namedItem H title) ings) = Inr ps'"
    and ps: "ps = (ing_name ing, it) # ps'"
    by (auto split: sum.splits)
  from Cons.IH[OF ps', of "pushTo (ing_name ing) it g"] it ps show ?case by simp
qed

lemma occurrences_Cons:
  "occurrences (l # ls) = map (\<lambda>ing. (recipeTitle l, ing)) (ingredients l) @ occurrences ls"
  by (simp add: occurrences_def)

lemma addLists_pairs:
  "occurrenceItems H ils = Inr pairs \<Longrightarrow>
     addLists H ils g = Inr (foldl (\<lambda>m (k, v). pushTo k v m) g pairs)"
proof (induction ils arbitrary: g pairs)
  case Nil
  then show ?case by (simp add: occurrenceItems_def occurrences_def)
next
  case (Cons l ls)
  from Cons.prems have "collect (map (namedItem H (recipeTitle l)) (ingredients l) @
      map (\<lambda>(title, ing). namedItem H title ing) (occurrences ls)) = Inr pairs"
    by (simp add: occurrenceItems_def occurrences_Cons comp_def)
  from collect_append_D[OF this] obtain a b where
    a: "collect (map (namedItem H (recipeTitle l)) (ingredients l)) = Inr a" and
    b: "occurrenceItems H ls = Inr b" and p: "pairs = a @ b"
    by (auto simp: occurrenceItems_def)
  from addIngredients_pairs[OF a, of g] Cons.IH[OF b] p show ?case by simp
qed

lemma occurrenceItems_total:
  "\<exists>pairs. occurrenceItems H ils = Inr pairs \<and>
     (\<forall>(n, it) \<in> set pairs. it_unit it \<in> set canonicalUnits)"
proof -
  have "\<exists>pairs. occurrenceItems H ils = Inr pairs"
    unfolding occurrenceItems_def
  proof (rule collect_total)
    fix r assume "r \<in> set (map (\<lambda>(title, ing). namedItem H title ing) (occurrences ils))"
    then obtain title ing where "r = namedItem H title ing" by auto
    with mkItem_Inr[of H ing title] show "\<exists>x. r = Inr x" by auto
  qed
  then obtain pairs where p: "occurrenceItems H ils = Inr pairs" by blast
  then have m: "map (\<lambda>(title, ing). namedItem H title ing) (occurrences ils) = map Inr pairs"
    by (simp add: occurrenceItems_def collect_Inr)
  have "it_unit it \<in> set canonicalUnits" if "(n, it) \<in> set pairs" for n it
  proof -
    from that m have "Inr (n, it) \<in> set (map (\<lambda>(title, ing). namedItem H title ing) (occurrences ils))"
      by simp
    then obtain title ing where "namedItem H title ing = Inr (n, it)" by auto
    with mkItem_Inr[of H ing title] show ?thesis by auto
  qed
  with p show ?thesis by blast
qed

lemma byUnitOf_groupPairs:
  assumes "\<forall>it \<in> set items. it_unit it \<in> set canonicalUnits"
  shows "byUnitOf H items = groupPairs (map (\<lambda>it. (it_unit it, it)) items)"
proof -
  have e: "map (\<lambda>it. (toLowerCase H (it_unit it), it)) items = map (\<lambda>it. (it_unit it, it)) items"
    using assms by (auto simp: lower_canonicalUnits)
  have "byUnitOf H items = groupPairs (map (\<lambda>it. (toLowerCase H (it_unit it), it)) items)"
    by (simp add: byUnitOf_def groupPairs_def foldl_map)
  also have "\<dots> = groupPairs (map (\<lambda>it. (it_unit it, it)) items)"
    by (simp only: e)
  finally show ?thesis .
qed

lemma valsOf_units: "valsOf (map (\<lambda>it. (it_unit it, it)) items) u = filter (\<lambda>it. it_unit it = u) items"
  by (induction items) (auto simp: valsOf_def)

lemma mkCombined_specRow:
  assumes "its \<noteq> []" "\<forall>it \<in> set its. it_unit it = unit"
  shows "mkCombined H name suffix unit its = Inr (specRow H name suffix unit its)"
proof -
  from assms(1) obtain i is' where "its = i # is'" by (cases its) auto
  moreover have "map (\<lambda>item. \<lparr>pq_amount = it_parsedAmount item, pq_unit = it_unit item,
                               pq_originalLabel = it_label item\<rparr>) its =
        map (\<lambda>it. \<lparr>pq_amount = it_parsedAmount it, pq_unit = unit,
                                  pq_originalLabel = it_label it\<rparr>) its"
    using assms(2) by simp
  ultimately show ?thesis
    by (simp add: mkCombined_def specRow_def getCleanDisplayName_def foldl_sum
        length_remdups_card_conv insert_absorb del: map_eq_conv)
qed

lemma emitGroup_rows:
  assumes ne: "items \<noteq> []" and can: "\<forall>it \<in> set items. it_unit it \<in> set canonicalUnits"
  shows "\<exists>rows. emitGroup H (name, items) = Inr rows \<and> mset rows = mset (specRowsFor H name items)"
proof -
  define P where "P = map (\<lambda>it. (it_unit it, it)) items"
  define units where "units = remdups (map it_unit items)"
  define h where "h = (\<lambda>u. (u, filter (\<lambda>it. it_unit it = u) items))"
  have B: "byUnitOf H items = groupPairs P"
    unfolding P_def by (rule byUnitOf_groupPairs[OF can])
  have fstP: "map fst P = map it_unit items" by (simp add: P_def comp_def)
  have vals: "valsOf P u = filter (\<lambda>it. it_unit it = u) items" for u
    unfolding P_def by (rule valsOf_units)
  have hmap: "map (\<lambda>k. (k, valsOf P k)) (remdups (map fst P)) = map h units"
    by (simp add: fstP vals units_def h_def)
  have msetB: "mset (groupPairs P) = mset (map h units)"
    using groupPairs_mset[of P] by (simp only: hmap)
  have lenB: "length (groupPairs P) = length units"
    using groupPairs_length[of P] by (simp add: fstP units_def)
  have row: "mkCombined H name suffix u its = Inr (specRow H name suffix u its)"
    if "(u, its) \<in> set (groupPairs P)" for u its suffix
  proof -
    from that have u: "u \<in> fst ` set P" and its: "its = filter (\<lambda>it. it_unit it = u) items"
      by (auto simp: groupPairs_mem vals)
    from valsOf_nonempty[OF u] vals its have "its \<noteq> []" by simp
    moreover from its have "\<forall>it \<in> set its. it_unit it = u" by simp
    ultimately show ?thesis by (rule mkCombined_specRow)
  qed
  show ?thesis
  proof (cases "length units = 1")
    case True
    then obtain u where u: "units = [u]" by (cases units) auto
    from True have "length (remdups (map fst P)) = 1" by (simp add: fstP units_def)
    from groupPairs_single[OF this] have "groupPairs P = map h units"
      by (simp only: hmap)
    with u have gp: "groupPairs P = [(u, filter (\<lambda>it. it_unit it = u) items)]" by (simp add: h_def)
    then have "(u, filter (\<lambda>it. it_unit it = u) items) \<in> set (groupPairs P)" by simp
    from row[OF this, of "[]"] gp B
    have "emitGroup H (name, items) = Inr [specRow H name [] u (filter (\<lambda>it. it_unit it = u) items)]"
      by (simp add: emitGroup_def)
    moreover have "specRowsFor H name items = [specRow H name [] u (filter (\<lambda>it. it_unit it = u) items)]"
      using u by (simp add: specRowsFor_def units_def[symmetric])
    ultimately show ?thesis by simp
  next
    case False
    define g where "g = (\<lambda>(u, its). specRow H name (js '' ('' @ u @ js '')'') u its)"
    have "map (\<lambda>(unit, items'). mkCombined H name (js '' ('' @ unit @ js '')'') unit items')
            (groupPairs P) = map Inr (map g (groupPairs P))"
      using row by (auto simp: g_def)
    then have "collect (map (\<lambda>(unit, items'). mkCombined H name (js '' ('' @ unit @ js '')'') unit items')
            (groupPairs P)) = Inr (map g (groupPairs P))"
      by (simp only: collect_map_Inr)
    with False lenB B have e: "emitGroup H (name, items) = Inr (map g (groupPairs P))"
      by (simp add: emitGroup_def)
    have m1: "mset (map g (groupPairs P)) = mset (map g (map h units))"
      using msetB by (metis mset_map)
    have m2: "map g (map h units) = map (\<lambda>u. specRow H name (js '' ('' @ u @ js '')'') u
                       (filter (\<lambda>it. it_unit it = u) items)) units"
      by (simp add: g_def h_def)
    have m3: "specRowsFor H name items = map (\<lambda>u. specRow H name (js '' ('' @ u @ js '')'') u
                       (filter (\<lambda>it. it_unit it = u) items)) units"
      using False by (simp add: specRowsFor_def units_def[symmetric])
    from m1 m2 m3 have "mset (map g (groupPairs P)) = mset (specRowsFor H name items)"
      by (simp only:)
    then show ?thesis using e by blast
  qed
qed

lemma mset_concat_map_pointwise:
  "(\<And>x. x \<in> set xs \<Longrightarrow> mset (f x) = mset (g x)) \<Longrightarrow>
     mset (concat (map f xs)) = mset (concat (map g xs))"
  by (induction xs) auto

section \<open>The loop of \<open>separateContent\<close>\<close>

text \<open>The definitions that a concrete run of a pattern unfolds.\<close>

lemmas rx_eval = js_def isSpace_def isDigit_def isWordChar_def canonicalize_def atWordBoundary_def
  test_def trim_def trimStart_def trimEnd_def

lemmas heuristic_eval = looksLikeIngredient_def rx_eval methodVerbs_def methodVerbList_def
  rxBulletStart_def measurements_def

lemmas line_defs = lineHarina_def lineAzucar_def lineMezclar_def lineHornear_def lineHuevos_def

lemma exampleBody_lines:
  "splitLines exampleBody = [lineHarina, lineAzucar, [], lineMezclar, lineHornear]"
  by (simp add: exampleBody_def line_defs js_def)

lemma looks_example_lines:
  "looksLikeIngredient lineHarina" "looksLikeIngredient lineAzucar"
  "\<not> looksLikeIngredient lineMezclar" "looksLikeIngredient lineHuevos"
  by (simp_all add: line_defs heuristic_eval)

lemma trim_example_lines:
  "trim lineHarina = lineHarina" "trim lineAzucar = lineAzucar" "trim [] = []"
  "trim lineMezclar = lineMezclar" "trim lineHornear = lineHornear" "trim lineHuevos = lineHuevos"
  by (simp_all add: line_defs rx_eval)

lemma nonempty_example_lines:
  "lineHarina \<noteq> []" "lineAzucar \<noteq> []" "lineMezclar \<noteq> []" "lineHornear \<noteq> []"
  "lineHuevos \<noteq> []"
  by (simp_all add: line_defs js_def)

lemma example_prefix_state:
  "foldl scStep scInit [lineHarina, lineAzucar, [], lineMezclar] =
   \<lparr>ingredientLines = [lineHarina, lineAzucar], methodLines = [lineMezclar],
    foundBlankLine = True, inMethod = True\<rparr>"
  by (simp add: scStep_def scInit_def trim_example_lines nonempty_example_lines
      looks_example_lines Let_def)

lemma scStep_inMethod:
  assumes "inMethod st"
  shows "inMethod (scStep st line) \<and> ingredientLines (scStep st line) = ingredientLines st \<and>
         methodLines (scStep st line) = methodLines st @ (if trim line = [] then [] else [trim line])"
  using assms by (simp add: scStep_def Let_def)

lemma foldl_scStep_inMethod:
  "inMethod st \<Longrightarrow>
     inMethod (foldl scStep st ls) \<and> ingredientLines (foldl scStep st ls) = ingredientLines st \<and>
     methodLines (foldl scStep st ls) = methodLines st @ filter (\<lambda>l. l \<noteq> []) (map trim ls)"
proof (induction ls arbitrary: st)
  case Nil
  then show ?case by simp
next
  case (Cons l ls)
  from scStep_inMethod[OF Cons.prems, of l] Cons.IH[of "scStep st l"] show ?case by simp
qed


lemma exampleIndexLine_cleaned:
  "replaceAll False rxXE [] exampleIndexLine = exampleIndexLine"
  by (simp add: exampleIndexLine_def replaceAll_def rxXE_def rx_eval)

lemma example_lines_state:
  "foldl scStep scInit [lineHarina, lineAzucar, [], lineMezclar, lineHornear] =
   \<lparr>ingredientLines = [lineHarina, lineAzucar], methodLines = [lineMezclar, lineHornear],
    foundBlankLine = True, inMethod = True\<rparr>"
proof -
  have "foldl scStep scInit [lineHarina, lineAzucar, [], lineMezclar, lineHornear] =
        scStep (foldl scStep scInit [lineHarina, lineAzucar, [], lineMezclar]) lineHornear"
    by (simp only: foldl.simps)
  also have "\<dots> = scStep \<lparr>ingredientLines = [lineHarina, lineAzucar], methodLines = [lineMezclar],
    foundBlankLine = True, inMethod = True\<rparr> lineHornear"
    by (simp only: example_prefix_state)
  also have "\<dots> = \<lparr>ingredientLines = [lineHarina, lineAzucar],
    methodLines = [lineMezclar, lineHornear], foundBlankLine = True, inMethod = True\<rparr>"
    by (simp add: scStep_def trim_example_lines nonempty_example_lines)
  finally show ?thesis .
qed

lemma exampleBody_newline_lines:
  "splitLines (exampleBody @ [10]) = [lineHarina, lineAzucar, [], lineMezclar, lineHornear, []]"
  by (simp add: exampleBody_def line_defs js_def)

lemma example_collect:
  "collectLines exampleBody =
   \<lparr>ingredientLines = [lineHarina, lineAzucar], methodLines = [lineMezclar, lineHornear],
    foundBlankLine = True, inMethod = True\<rparr>"
  by (simp only: collectLines_def exampleBody_lines example_lines_state)

lemma example_collect_newline:
  "collectLines (exampleBody @ [10]) =
   \<lparr>ingredientLines = [lineHarina, lineAzucar], methodLines = [lineMezclar, lineHornear],
    foundBlankLine = True, inMethod = True\<rparr>"
proof -
  have "foldl scStep scInit [lineHarina, lineAzucar, [], lineMezclar, lineHornear, []] =
        scStep (foldl scStep scInit [lineHarina, lineAzucar, [], lineMezclar, lineHornear]) []"
    by (simp only: foldl.simps)
  also have "\<dots> = scStep \<lparr>ingredientLines = [lineHarina, lineAzucar],
    methodLines = [lineMezclar, lineHornear], foundBlankLine = True, inMethod = True\<rparr> []"
    by (simp only: example_lines_state)
  also have "\<dots> = \<lparr>ingredientLines = [lineHarina, lineAzucar],
    methodLines = [lineMezclar, lineHornear], foundBlankLine = True, inMethod = True\<rparr>"
    by (simp add: scStep_def trim_example_lines)
  finally show ?thesis by (simp only: collectLines_def exampleBody_newline_lines)
qed

section \<open>The replacements of \<open>slugify\<close>\<close>

declare replaceFrom.simps [simp del]

lemma replaceFrom_Nil_nomatch:
  "ms ci r (p, [], []) = [] \<Longrightarrow> replaceFrom ci r rep p [] = []"
  by (subst replaceFrom.simps) simp

lemma replaceFrom_Cons_nomatch:
  "ms ci r (p, x # xs, []) = [] \<Longrightarrow>
     replaceFrom ci r rep p (x # xs) = x # replaceFrom ci r rep (Some x) xs"
  by (subst replaceFrom.simps) simp

lemma replaceFrom_match:
  "ms ci r (p, s, []) = (p', s', caps) # rest \<Longrightarrow> length s' < length s \<Longrightarrow>
     replaceFrom ci r rep p s = rep @ replaceFrom ci r rep p' s'"
  by (subst replaceFrom.simps) simp

text \<open>Deleting the characters of a class.\<close>
lemma replaceFrom_One:
  "replaceFrom ci (One c) [] p s = filter (\<lambda>x. \<not> inSet ci c x) s"
proof (induction s arbitrary: p)
  case Nil
  then show ?case by (simp add: replaceFrom_Nil_nomatch)
next
  case (Cons x xs)
  show ?case
  proof (cases "inSet ci c x")
    case True
    then have "ms ci (One c) (p, x # xs, []) = (Some x, xs, []) # []" by simp
    from replaceFrom_match[OF this, of "[]"] True Cons show ?thesis by simp
  next
    case False
    then have "ms ci (One c) (p, x # xs, []) = []" by simp
    from replaceFrom_Cons_nomatch[OF this, of "[]"] False Cons show ?thesis by simp
  qed
qed

lemma starRuns_hd:
  "\<exists>q rest. starRuns ci c (p, s, caps) = (q, dropWhile (inSet ci c) s, caps) # rest"
proof (induction s arbitrary: p)
  case Nil
  then show ?case by simp
next
  case (Cons x xs)
  show ?case
  proof (cases "inSet ci c x")
    case True
    from Cons[of "Some x"] obtain q rest where
      "starRuns ci c (Some x, xs, caps) = (q, dropWhile (inSet ci c) xs, caps) # rest" by blast
    with True show ?thesis by simp
  next
    case False
    then show ?thesis by simp
  qed
qed

lemma ms_Plus_Nil: "ms ci (Plus c) (p, [], caps) = []"
  by simp

lemma ms_Plus_Cons:
  "ms ci (Plus c) (p, x # xs, caps) =
     (if inSet ci c x then starRuns ci c (Some x, xs, caps) else [])"
  by simp

text \<open>Replacing every maximal run of a class.\<close>
lemma replaceFrom_Plus_Nil: "replaceFrom ci (Plus c) rep p [] = []"
  by (rule replaceFrom_Nil_nomatch) simp

lemma replaceFrom_Plus_Cons:
  "\<exists>q. replaceFrom ci (Plus c) rep p (x # xs) =
     (if inSet ci c x then rep @ replaceFrom ci (Plus c) rep q (dropWhile (inSet ci c) xs)
      else x # replaceFrom ci (Plus c) rep (Some x) xs)"
proof (cases "inSet ci c x")
  case True
  from starRuns_hd[of ci c "Some x" xs "[]"] obtain q rest where
    "starRuns ci c (Some x, xs, []) = (q, dropWhile (inSet ci c) xs, []) # rest" by blast
  with True have m: "ms ci (Plus c) (p, x # xs, []) = (q, dropWhile (inSet ci c) xs, []) # rest"
    by (simp only: ms_Plus_Cons if_True)
  have "length (dropWhile (inSet ci c) xs) < length (x # xs)"
    by (simp add: length_dropWhile_le le_imp_less_Suc)
  from replaceFrom_match[OF m this, of rep] True show ?thesis by auto
next
  case False
  then have "ms ci (Plus c) (p, x # xs, []) = []" by simp
  from replaceFrom_Cons_nomatch[OF this, of rep] False show ?thesis by auto
qed

lemma replaceFrom_Plus_set:
  "set (replaceFrom ci (Plus c) rep p s) \<subseteq> set rep \<union> {x \<in> set s. \<not> inSet ci c x}"
proof (induction "length s" arbitrary: s p rule: less_induct)
  case less
  show ?case
  proof (cases s)
    case Nil
    then show ?thesis by (simp add: replaceFrom_Plus_Nil)
  next
    case (Cons x xs)
    from replaceFrom_Plus_Cons[of ci c rep p x xs] obtain q where
      e: "replaceFrom ci (Plus c) rep p (x # xs) =
         (if inSet ci c x then rep @ replaceFrom ci (Plus c) rep q (dropWhile (inSet ci c) xs)
          else x # replaceFrom ci (Plus c) rep (Some x) xs)" by blast
    have l1: "length (dropWhile (inSet ci c) xs) < length s"
      using Cons by (simp add: length_dropWhile_le le_imp_less_Suc)
    have l2: "length xs < length s" using Cons by simp
    have s1: "set (dropWhile (inSet ci c) xs) \<subseteq> set xs" by (rule set_dropWhileD[THEN subsetI])
    from less[OF l1, of q] less[OF l2, of "Some x"] e Cons s1 show ?thesis
      by (auto split: if_splits)
  qed
qed

lemma dropWhile_not_hd: "dropWhile P xs = y # ys \<Longrightarrow> \<not> P y"
  using hd_dropWhile[of P xs] by auto

text \<open>Collapsing runs of hyphens leaves no two hyphens in a row.\<close>
lemma collapse_hyphens:
  "\<not> doubled (replaceFrom False (Plus (Pos [Ch 45])) [45] p s) \<and>
   (\<forall>r rs. replaceFrom False (Plus (Pos [Ch 45])) [45] p s = r # rs \<and> r = 45 \<longrightarrow>
      (\<exists>xs. s = 45 # xs))"
proof (induction "length s" arbitrary: s p rule: less_induct)
  case less
  let ?R = "\<lambda>p s. replaceFrom False (Plus (Pos [Ch 45])) [45] p s"
  show ?case
  proof (cases s)
    case Nil
    then show ?thesis by (simp add: replaceFrom_Plus_Nil)
  next
    case (Cons x xs)
    from replaceFrom_Plus_Cons[of False "Pos [Ch 45]" "[45]" p x xs] obtain q where
      e: "?R p (x # xs) =
         (if x = 45 then [45] @ ?R q (dropWhile (inSet False (Pos [Ch 45])) xs)
          else x # ?R (Some x) xs)" by auto
    show ?thesis
    proof (cases "x = 45")
      case True
      let ?s' = "dropWhile (inSet False (Pos [Ch 45])) xs"
      have l1: "length ?s' < length s"
        using Cons by (simp add: length_dropWhile_le le_imp_less_Suc)
      from less[OF l1, of q] have IH: "\<not> doubled (?R q ?s')"
        "\<And>r rs. ?R q ?s' = r # rs \<Longrightarrow> r = 45 \<Longrightarrow> \<exists>ys. ?s' = 45 # ys" by blast+
      have nohd: "\<not> (\<exists>ys. ?s' = 45 # ys)"
        using dropWhile_not_hd[of "inSet False (Pos [Ch 45])" xs] by auto
      have "\<not> doubled (45 # ?R q ?s')"
      proof (cases "?R q ?s'")
        case Nil
        then show ?thesis by simp
      next
        case (Cons r rs)
        with IH(2)[OF Cons] nohd have "r \<noteq> 45" by blast
        with Cons IH(1) show ?thesis by simp
      qed
      with e True Cons show ?thesis by simp
    next
      case False
      have l2: "length xs < length s" using Cons by simp
      from less[OF l2, of "Some x"] have IH: "\<not> doubled (?R (Some x) xs)" by blast
      have "\<not> doubled (x # ?R (Some x) xs)"
        using IH False by (cases "?R (Some x) xs") auto
      with e False Cons show ?thesis by simp
    qed
  qed
qed

lemma ms_edge:
  "ms False rxEdgeHyphen (p, s, []) =
     (if p = None \<and> (\<exists>xs. s = 45 # xs) then [(Some 45, tl s, [])] else []) @
     (if s = [45] then [(Some 45, [], [])] else [])"
proof (cases s)
  case Nil
  then show ?thesis by (simp add: rxEdgeHyphen_def js_def)
next
  case (Cons x xs)
  then show ?thesis by (cases xs) (auto simp: rxEdgeHyphen_def js_def)
qed

lemma replaceFrom_edge_Some:
  "replaceFrom False rxEdgeHyphen [] (Some q) s = dropLastHyphen s"
proof (induction s arbitrary: q)
  case Nil
  have "ms False rxEdgeHyphen (Some q, [], []) = []" by (simp add: ms_edge)
  from replaceFrom_Nil_nomatch[OF this] show ?case by (simp add: dropLastHyphen_def)
next
  case (Cons x xs)
  show ?case
  proof (cases "x # xs = [45]")
    case True
    then have m: "ms False rxEdgeHyphen (Some q, x # xs, []) = (Some 45, [], []) # []"
      by (simp add: ms_edge)
    have "ms False rxEdgeHyphen (Some 45, [], []) = []" by (simp add: ms_edge)
    from replaceFrom_match[OF m, of "[]"] replaceFrom_Nil_nomatch[OF this, of "[]"] True
    show ?thesis by (simp add: dropLastHyphen_def)
  next
    case False
    then have "ms False rxEdgeHyphen (Some q, x # xs, []) = []" by (simp add: ms_edge)
    from replaceFrom_Cons_nomatch[OF this, of "[]"] Cons[of x] False show ?thesis
      by (auto simp: dropLastHyphen_def)
  qed
qed

lemma replaceAll_edge:
  "replaceAll False rxEdgeHyphen [] s =
     (case s of [] \<Rightarrow> [] | x # xs \<Rightarrow> if x = 45 then dropLastHyphen xs else x # dropLastHyphen xs)"
proof (cases s)
  case Nil
  have "ms False rxEdgeHyphen (None, [], []) = []" by (simp add: ms_edge)
  from replaceFrom_Nil_nomatch[OF this, of "[]"] Nil show ?thesis by (simp add: replaceAll_def)
next
  case (Cons x xs)
  show ?thesis
  proof (cases "x = 45")
    case True
    then have m: "ms False rxEdgeHyphen (None, x # xs, []) =
        (Some 45, xs, []) # (if xs = [] then [(Some 45, [], [])] else [])"
      by (simp add: ms_edge)
    from replaceFrom_match[OF m, of "[]"] True Cons show ?thesis
      by (simp add: replaceAll_def replaceFrom_edge_Some)
  next
    case False
    then have "ms False rxEdgeHyphen (None, x # xs, []) = []" by (simp add: ms_edge)
    from replaceFrom_Cons_nomatch[OF this, of "[]"] False Cons show ?thesis
      by (simp add: replaceAll_def replaceFrom_edge_Some)
  qed
qed

lemma doubled_append: "doubled (us @ [45, 45] @ vs)"
proof (induction us)
  case Nil
  then show ?case by simp
next
  case (Cons u us)
  then show ?case by (cases "us @ [45, 45] @ vs") auto
qed

lemma doubled_Cons: "doubled xs \<Longrightarrow> doubled (x # xs)"
  by (cases xs) auto

lemma doubled_butlast: "doubled (butlast xs) \<Longrightarrow> doubled xs"
proof (induction xs rule: doubled.induct)
  case (1 x y ys)
  then show ?case by (cases ys) (auto split: if_splits)
qed auto

lemma doubled_dropLast: "doubled (dropLastHyphen xs) \<Longrightarrow> doubled xs"
  by (auto simp: dropLastHyphen_def doubled_butlast split: if_splits)

lemma doubled_snoc: "\<not> doubled (xs @ [45]) \<Longrightarrow> xs \<noteq> [] \<Longrightarrow> last xs \<noteq> 45"
proof (induction xs rule: doubled.induct)
  case (1 x y ys)
  then show ?case by (cases ys) (auto split: if_splits)
qed auto

lemma dropLast_last:
  assumes "\<not> doubled xs" "dropLastHyphen xs \<noteq> []"
  shows "last (dropLastHyphen xs) \<noteq> 45"
proof (cases "xs \<noteq> [] \<and> last xs = 45")
  case True
  then have xs: "xs = butlast xs @ [45]" by (metis append_butlast_last_id)
  from True assms(2) have ne: "butlast xs \<noteq> []" by (simp add: dropLastHyphen_def)
  from assms(1) xs have "\<not> doubled (butlast xs @ [45])" by simp
  from doubled_snoc[OF this ne] True show ?thesis by (simp add: dropLastHyphen_def)
next
  case False
  with assms(2) show ?thesis by (auto simp: dropLastHyphen_def)
qed

lemma dropLast_hd: "dropLastHyphen xs = y # ys \<Longrightarrow> \<exists>zs. xs = y # zs"
  by (cases xs) (auto simp: dropLastHyphen_def split: if_splits)

lemma dropLast_set: "set (dropLastHyphen xs) \<subseteq> set xs"
  by (auto simp: dropLastHyphen_def dest: in_set_butlastD)

text \<open>The last step of \<open>slugify\<close> on a string without doubled hyphens.\<close>
lemma trim_edges:
  assumes "\<not> doubled t"
  shows "set (replaceAll False rxEdgeHyphen [] t) \<subseteq> set t"
    and "\<not> doubled (replaceAll False rxEdgeHyphen [] t)"
    and "replaceAll False rxEdgeHyphen [] t \<noteq> [] \<Longrightarrow> hd (replaceAll False rxEdgeHyphen [] t) \<noteq> 45"
    and "replaceAll False rxEdgeHyphen [] t \<noteq> [] \<Longrightarrow> last (replaceAll False rxEdgeHyphen [] t) \<noteq> 45"
proof -
  show "set (replaceAll False rxEdgeHyphen [] t) \<subseteq> set t"
    using dropLast_set by (cases t) (auto simp: replaceAll_edge)
  show "\<not> doubled (replaceAll False rxEdgeHyphen [] t)"
  proof (cases t)
    case Nil
    then show ?thesis by (simp add: replaceAll_edge)
  next
    case (Cons x xs)
    from assms Cons have nx: "\<not> doubled xs" using doubled_Cons by blast
    then have nd: "\<not> doubled (dropLastHyphen xs)" using doubled_dropLast by blast
    show ?thesis
    proof (cases "x = 45")
      case True
      with Cons nd show ?thesis by (simp add: replaceAll_edge)
    next
      case False
      with nd have "\<not> doubled (x # dropLastHyphen xs)"
        by (cases "dropLastHyphen xs") auto
      with Cons False show ?thesis by (simp add: replaceAll_edge)
    qed
  qed
  show "hd (replaceAll False rxEdgeHyphen [] t) \<noteq> 45" if "replaceAll False rxEdgeHyphen [] t \<noteq> []"
  proof (cases t)
    case Nil
    with that show ?thesis by (simp add: replaceAll_edge)
  next
    case (Cons x xs)
    show ?thesis
    proof (cases "x = 45")
      case True
      with Cons that obtain y ys where d: "dropLastHyphen xs = y # ys"
        by (cases "dropLastHyphen xs") (auto simp: replaceAll_edge)
      from dropLast_hd[OF d] obtain zs where "xs = y # zs" by blast
      with assms Cons True have "y \<noteq> 45" by auto
      with Cons True d show ?thesis by (simp add: replaceAll_edge)
    next
      case False
      with Cons show ?thesis by (simp add: replaceAll_edge)
    qed
  qed
  show "last (replaceAll False rxEdgeHyphen [] t) \<noteq> 45" if "replaceAll False rxEdgeHyphen [] t \<noteq> []"
  proof (cases t)
    case Nil
    with that show ?thesis by (simp add: replaceAll_edge)
  next
    case (Cons x xs)
    from assms Cons have nx: "\<not> doubled xs" using doubled_Cons by blast
    show ?thesis
    proof (cases "x = 45")
      case True
      with Cons that have "dropLastHyphen xs \<noteq> []" by (simp add: replaceAll_edge)
      from dropLast_last[OF nx this] Cons True show ?thesis by (simp add: replaceAll_edge)
    next
      case False
      show ?thesis
      proof (cases "dropLastHyphen xs = []")
        case True
        with Cons False show ?thesis by (simp add: replaceAll_edge)
      next
        case ne: False
        from dropLast_last[OF nx ne] Cons False ne show ?thesis by (simp add: replaceAll_edge)
      qed
    qed
  qed
qed


lemma example_slug: "slugify asciiHost exampleTitle = js ''pollo-al-horno''"
proof -
  have 1: "normalizeNFD asciiHost (toLowerCase asciiHost exampleTitle) = js ''  pollo -- al  horno! ''"
    by (simp add: exampleTitle_def asciiHost_def toLowerCase_def isAscii_def asciiLower_def js_def)
  have 2: "replaceAll False (One (Pos [Rng 768 879])) [] (js ''  pollo -- al  horno! '') = js ''  pollo -- al  horno! ''"
    by (simp add: replaceAll_def replaceFrom_One js_def)
  have 3: "replaceAll False (One (Neg [Rng 97 122, Rng 48 57, Space, Ch 45])) [] (js ''  pollo -- al  horno! '') = js ''  pollo -- al  horno ''"
    by (simp add: replaceAll_def replaceFrom_One js_def isSpace_def)
  have 4: "replaceAll False (Plus space) (js ''-'') (js ''  pollo -- al  horno '') = js ''-pollo----al-horno-''"
    by (simp add: replaceAll_def replaceFrom.simps js_def isSpace_def)
  have 5: "replaceAll False (Plus (Pos [Ch 45])) (js ''-'') (js ''-pollo----al-horno-'') = js ''-pollo-al-horno-''"
    by (simp add: replaceAll_def replaceFrom.simps js_def)
  have 6: "replaceAll False rxEdgeHyphen [] (js ''-pollo-al-horno-'') = js ''pollo-al-horno''"
    by (simp add: replaceAll_edge dropLastHyphen_def js_def)
  show ?thesis
    unfolding slugify_def by (simp only: 1 2 3 4 5 6)
qed

section \<open>The recipes that are emitted\<close>

text \<open>Every recipe that is pushed has a body that is not blank.\<close>

lemma pushCurrent_nonblank:
  "\<forall>r \<in> set (recipes st). trim (rawContent r) \<noteq> [] \<Longrightarrow>
     \<forall>r \<in> set (pushCurrent st). trim (rawContent r) \<noteq> []"
  by (auto simp: pushCurrent_def split: option.splits if_splits)

lemma prLine_nonblank:
  "\<forall>r \<in> set (recipes st). trim (rawContent r) \<noteq> [] \<Longrightarrow>
     \<forall>r \<in> set (recipes (prLine H st line trimmed)). trim (rawContent r) \<noteq> []"
  using pushCurrent_nonblank[of st]
  by (auto simp: prLine_def Let_def split: option.splits)

lemma prStep_nonblank:
  assumes "\<forall>r \<in> set (recipes st). trim (rawContent r) \<noteq> []"
  shows "\<forall>r \<in> set (recipes (prStep H st line)). trim (rawContent r) \<noteq> []"
proof -
  have "\<forall>r \<in> set (recipes (st\<lparr>inIndex := False\<rparr>)). trim (rawContent r) \<noteq> []"
    using assms by simp
  from prLine_nonblank[OF this] prLine_nonblank[OF assms] assms show ?thesis
    by (simp add: prStep_def Let_def)
qed

lemma foldl_prStep_nonblank:
  "\<forall>r \<in> set (recipes st). trim (rawContent r) \<noteq> [] \<Longrightarrow>
     \<forall>r \<in> set (recipes (foldl (prStep H) st ls)). trim (rawContent r) \<noteq> []"
proof (induction ls arbitrary: st)
  case Nil
  then show ?case by simp
next
  case (Cons l ls)
  from Cons.IH[OF prStep_nonblank[OF Cons.prems]] show ?case by simp
qed

lemma parseRecipes_nonblank:
  "\<forall>r \<in> set (parseRecipes H txt). trim (rawContent r) \<noteq> []"
  unfolding parseRecipes_def
  by (rule pushCurrent_nonblank, rule foldl_prStep_nonblank) simp

text \<open>Every method line that is collected is not empty.\<close>

lemma scStep_lines_nonempty:
  assumes "\<forall>l \<in> set (methodLines st). l \<noteq> []"
  shows "\<forall>l \<in> set (methodLines (scStep st line)). l \<noteq> []"
  using assms by (auto simp: scStep_def Let_def)

lemma collectLines_nonempty: "\<forall>l \<in> set (methodLines (collectLines body)). l \<noteq> []"
proof -
  have "\<forall>l \<in> set (methodLines st). l \<noteq> [] \<Longrightarrow>
        \<forall>l \<in> set (methodLines (foldl scStep st ls)). l \<noteq> []" for st ls
  proof (induction ls arbitrary: st)
    case Nil
    then show ?case by simp
  next
    case (Cons l ls)
    from Cons.IH[OF scStep_lines_nonempty[OF Cons.prems]] show ?case by simp
  qed
  from this[of scInit] show ?thesis by (simp add: collectLines_def scInit_def)
qed

lemma join_two_nonempty: "2 \<le> length ls \<Longrightarrow> sep \<noteq> [] \<Longrightarrow> join sep ls \<noteq> []"
proof (cases ls)
  case Nil
  then show "2 \<le> length ls \<Longrightarrow> ?thesis" by simp
next
  case (Cons x xs)
  then show "2 \<le> length ls \<Longrightarrow> sep \<noteq> [] \<Longrightarrow> ?thesis" by (cases xs) auto
qed

lemma join_first_nonempty: "1 \<le> length ls \<Longrightarrow> \<forall>l \<in> set ls. l \<noteq> [] \<Longrightarrow> join sep ls \<noteq> []"
proof (cases ls)
  case Nil
  then show "1 \<le> length ls \<Longrightarrow> ?thesis" by simp
next
  case (Cons x xs)
  then show "\<forall>l \<in> set ls. l \<noteq> [] \<Longrightarrow> ?thesis" by (cases xs) auto
qed

lemma separateContent_shape:
  assumes "trim body \<noteq> []"
  shows "(\<exists>c. sep_content (separateContent body) = Some c \<and> c \<noteq> [] \<and>
            sep_ingredientes (separateContent body) = None \<and>
            sep_metodo (separateContent body) = None) \<or>
         (\<exists>i m. sep_content (separateContent body) = None \<and>
            sep_ingredientes (separateContent body) = Some i \<and> i \<noteq> [] \<and>
            sep_metodo (separateContent body) = Some m \<and> m \<noteq> [])"
proof (cases "2 \<le> length (ingredientLines (collectLines body)) \<and>
              1 \<le> length (methodLines (collectLines body))")
  case True
  then have "join [10] (ingredientLines (collectLines body)) \<noteq> []"
    by (simp add: join_two_nonempty)
  moreover from True collectLines_nonempty[of body]
  have "join [10, 10] (methodLines (collectLines body)) \<noteq> []"
    by (simp add: join_first_nonempty)
  ultimately show ?thesis using True by (simp add: separateContent_def Let_def)
next
  case False
  with assms show ?thesis by (auto simp: separateContent_def Let_def)
qed



lemmas text_defs = lineIndex_def lineA_def lineArroz_def titlePollo_def titleSopa_def
  lineBlank_def titleSopaAjo_def lineHervir_def

lemmas title_eval = isRecipeTitle_def isIndexEntry_def rxIndexEntry_def replaceAll_def rxXE_def
  replaceFrom.simps upperLetters_def lowerLetters_def countClass_def rx_eval

lemma exampleText_lines:
  "splitLines exampleText =
     [lineIndex, lineA, lineArroz, [], titlePollo, lineHarina, lineAzucar, [],
      lineMezclar, lineHornear, titleSopa, lineBlank, titleSopaAjo, lineHervir, []]"
  by (simp add: exampleText_def text_defs line_defs js_def)

lemma trim_text_lines:
  "trim lineIndex = lineIndex" "trim lineA = lineA" "trim lineArroz = lineArroz"
  "trim titlePollo = titlePollo" "trim titleSopa = titleSopa" "trim lineBlank = []"
  "trim titleSopaAjo = titleSopaAjo" "trim lineHervir = lineHervir"
  by (simp_all add: text_defs rx_eval)

lemma nonempty_text_lines:
  "lineIndex \<noteq> []" "lineA \<noteq> []" "lineArroz \<noteq> []" "titlePollo \<noteq> []" "titleSopa \<noteq> []"
  "titleSopaAjo \<noteq> []" "lineHervir \<noteq> []"
  by (simp_all add: text_defs js_def)

lemma index_phase:
  "\<not> isIndexEntry lineIndex" "\<not> test False rxSingleLetter lineIndex"
  "startsWith lineIndex (js ''INDEX'')"
  "\<not> isIndexEntry lineA" "test False rxSingleLetter lineA"
  "isIndexEntry lineArroz"
  "\<not> isIndexEntry titlePollo" "\<not> test False rxSingleLetter titlePollo"
  "\<not> startsWith titlePollo (js ''INDEX'')"
  by (simp_all add: text_defs isIndexEntry_def rxIndexEntry_def rxSingleLetter_def startsWith_def
      rx_eval)

lemma titles:
  "isRecipeTitle titlePollo" "isRecipeTitle titleSopa" "isRecipeTitle titleSopaAjo"
  "\<not> isRecipeTitle lineHarina" "\<not> isRecipeTitle lineAzucar" "\<not> isRecipeTitle []"
  "\<not> isRecipeTitle lineMezclar" "\<not> isRecipeTitle lineHornear" "\<not> isRecipeTitle lineHervir"
  by (simp_all add: text_defs line_defs title_eval)

lemma clean_titles:
  "cleanTitle titlePollo = titlePollo" "cleanTitle titleSopa = titleSopa"
  "cleanTitle titleSopaAjo = titleSopaAjo"
  by (simp_all add: text_defs cleanTitle_def replaceAll_def rxXE_def replaceFrom.simps rx_eval)

lemmas slug_eval = slugify_def asciiHost_def toLowerCase_def isAscii_def asciiLower_def
  replaceAll_def replaceFrom_One replaceFrom.simps rxEdgeHyphen_def js_def isSpace_def

lemma slugs:
  "slugify asciiHost titlePollo = js ''pollo-al-horno''"
  "slugify asciiHost titleSopa = js ''sopa''"
  "slugify asciiHost titleSopaAjo = js ''sopa-de-ajo''"
  by (simp_all add: text_defs slug_eval)

lemma raw_trims:
  "trim (lineHarina @ 10 # lineAzucar @ 10 # 10 # lineMezclar @ 10 # lineHornear @ [10]) \<noteq> []"
  "trim (lineBlank @ [10]) = []"
  "trim (lineHervir @ [10, 10]) = lineHervir"
  by (simp_all add: text_defs line_defs rx_eval)

lemma example_parse:
  "parseRecipes asciiHost exampleText =
     [\<lparr>raw_title = titlePollo, raw_slug = js ''pollo-al-horno'', rawContent = exampleBody @ [10]\<rparr>,
      \<lparr>raw_title = titleSopaAjo, raw_slug = js ''sopa-de-ajo'', rawContent = lineHervir @ [10, 10]\<rparr>]"
  unfolding parseRecipes_def exampleText_lines
  by (simp add: prStep_def prLine_def pushCurrent_def Let_def trim_text_lines trim_example_lines
      nonempty_text_lines nonempty_example_lines index_phase titles clean_titles slugs raw_trims
      exampleBody_def)

lemma looks_hervir: "\<not> looksLikeIngredient lineHervir"
  by (simp add: lineHervir_def heuristic_eval)

lemma separate_pollo:
  "separateContent (exampleBody @ [10]) =
     \<lparr>sep_ingredientes = Some (lineHarina @ [10] @ lineAzucar),
      sep_metodo = Some (lineMezclar @ [10, 10] @ lineHornear),
      sep_content = None\<rparr>"
  by (simp add: separateContent_def example_collect_newline)

lemma separate_hervir:
  "separateContent (lineHervir @ [10, 10]) =
     \<lparr>sep_ingredientes = None, sep_metodo = None, sep_content = Some lineHervir\<rparr>"
proof -
  have s: "splitLines (lineHervir @ [10, 10]) = [lineHervir, [], []]"
    by (simp add: lineHervir_def js_def)
  have c: "collectLines (lineHervir @ [10, 10]) =
     \<lparr>ingredientLines = [], methodLines = [lineHervir], foundBlankLine = False, inMethod = True\<rparr>"
    by (simp add: collectLines_def s scStep_def scInit_def trim_text_lines trim_example_lines
        nonempty_text_lines looks_hervir)
  show ?thesis by (simp add: separateContent_def c raw_trims)
qed

lemma example_processed:
  "processedRecipes asciiHost exampleText = [exampleRecipePollo, exampleRecipeSopa]"
  by (simp add: processedRecipes_def example_parse processRecipe_def separate_pollo
      separate_hervir exampleRecipePollo_def exampleRecipeSopa_def)

section \<open>The claims\<close>





text \<open>
  Claim C3. Every recipe that the extraction emits has exactly one of the two shapes:
  \<open>content\<close> is set and neither \<open>ingredientes\<close> nor \<open>metodo\<close> is, or \<open>ingredientes\<close>
  and \<open>metodo\<close> are both set and \<open>content\<close> is not; and a field that is set holds a
  string that is not empty.
\<close>

theorem recipe_shape:
  "\<forall>r \<in> set (processedRecipes H txt).
     (\<exists>c. rec_content r = Some c \<and> c \<noteq> [] \<and> rec_ingredientes r = None \<and> rec_metodo r = None) \<or>
     (\<exists>i m. rec_content r = None \<and> rec_ingredientes r = Some i \<and> i \<noteq> [] \<and>
        rec_metodo r = Some m \<and> m \<noteq> [])"
proof
  fix r assume "r \<in> set (processedRecipes H txt)"
  then obtain raw where raw: "raw \<in> set (parseRecipes H txt)" and r: "r = processRecipe raw"
    by (auto simp: processedRecipes_def)
  from parseRecipes_nonblank raw have "trim (rawContent raw) \<noteq> []" by blast
  from separateContent_shape[OF this] r show
    "(\<exists>c. rec_content r = Some c \<and> c \<noteq> [] \<and> rec_ingredientes r = None \<and> rec_metodo r = None) \<or>
     (\<exists>i m. rec_content r = None \<and> rec_ingredientes r = Some i \<and> i \<noteq> [] \<and>
        rec_metodo r = Some m \<and> m \<noteq> [])"
    by (simp add: processRecipe_def Let_def)
qed

theorem recipe_shape_witness:
  "exampleRecipePollo \<in> set (processedRecipes asciiHost exampleText) \<and>
   (\<exists>i m. rec_content exampleRecipePollo = None \<and>
      rec_ingredientes exampleRecipePollo = Some i \<and> i \<noteq> [] \<and>
      rec_metodo exampleRecipePollo = Some m \<and> m \<noteq> []) \<and>
   exampleRecipeSopa \<in> set (processedRecipes asciiHost exampleText) \<and>
   (\<exists>c. rec_content exampleRecipeSopa = Some c \<and> c \<noteq> [] \<and>
      rec_ingredientes exampleRecipeSopa = None \<and> rec_metodo exampleRecipeSopa = None) \<and>
   length (processedRecipes asciiHost exampleText) = 2"
proof -
  have p: "exampleRecipePollo \<in> set (processedRecipes asciiHost exampleText)"
    and s: "exampleRecipeSopa \<in> set (processedRecipes asciiHost exampleText)"
    and n: "length (processedRecipes asciiHost exampleText) = 2"
    by (simp_all add: example_processed)
  have cp: "rec_content exampleRecipePollo = None" by (simp add: exampleRecipePollo_def)
  have cs: "rec_ingredientes exampleRecipeSopa = None" by (simp add: exampleRecipeSopa_def)
  from recipe_shape[of asciiHost exampleText] p cp
  have 1: "\<exists>i m. rec_content exampleRecipePollo = None \<and>
      rec_ingredientes exampleRecipePollo = Some i \<and> i \<noteq> [] \<and>
      rec_metodo exampleRecipePollo = Some m \<and> m \<noteq> []" by fastforce
  from recipe_shape[of asciiHost exampleText] s cs
  have 2: "\<exists>c. rec_content exampleRecipeSopa = Some c \<and> c \<noteq> [] \<and>
      rec_ingredientes exampleRecipeSopa = None \<and> rec_metodo exampleRecipeSopa = None" by fastforce
  from p s n 1 2 show ?thesis by blast
qed

text \<open>
  Claim C4. The records \<open>combineIngredients\<close> returns are, up to their order, exactly the
  rows of the specification: for an ingredient name whose occurrences span more than one
  unit, one record per unit with the suffix \<^verbatim>\<open> (unit)\<close> on name and display name; for a
  name with a single unit, one record with the name unmodified; the display name is the
  name with its first character upper-cased, and the recipe count is the number of
  distinct recipe titles among the occurrences of that name and unit.
\<close>

theorem rows_per_name_and_unit:
  "\<exists>pairs res. occurrenceItems H ils = Inr pairs \<and> combineIngredients H ils = Inr res \<and>
     mset res = mset (specRows H pairs)"
proof -
  from occurrenceItems_total[of H ils] obtain pairs where
    p: "occurrenceItems H ils = Inr pairs" and
    can: "\<forall>(n, it) \<in> set pairs. it_unit it \<in> set canonicalUnits" by blast
  define G where "G = groupPairs pairs"
  from addLists_pairs[OF p, of "[]"] have g: "addLists H ils [] = Inr G"
    by (simp add: G_def groupPairs_def)
  define rowsOf where "rowsOf = (\<lambda>e. case emitGroup H e of Inr rows \<Rightarrow> rows | Inl _ \<Rightarrow> [])"
  have grp: "emitGroup H (n, its) = Inr (rowsOf (n, its)) \<and>
             mset (rowsOf (n, its)) = mset (specRowsFor H n its)"
    if "n \<in> fst ` set pairs" "its = valsOf pairs n" for n its
  proof -
    from valsOf_nonempty[OF that(1)] that(2) have ne: "its \<noteq> []" by simp
    have "\<forall>it \<in> set its. it_unit it \<in> set canonicalUnits"
      using can that(2) by (auto simp: valsOf_def)
    from emitGroup_rows[OF ne this, of H n] show ?thesis by (auto simp: rowsOf_def)
  qed
  have "map (emitGroup H) G = map Inr (map rowsOf G)"
    using grp by (auto simp: G_def groupPairs_mem)
  then have "collect (map (emitGroup H) G) = Inr (map rowsOf G)"
    by (simp only: collect_map_Inr)
  with g have res: "combineIngredients H ils =
      Inr (sortBy (\<lambda>a b. localeCompare H (ci_displayName a) (ci_displayName b))
             (concat (map rowsOf G)))"
    by (simp add: combineIngredients_def)
  have "mset (concat (map rowsOf G)) =
        mset (concat (map rowsOf (map (\<lambda>k. (k, valsOf pairs k)) (remdups (map fst pairs)))))"
    unfolding G_def by (rule mset_concat_map_cong) (rule groupPairs_mset)
  also have "\<dots> = mset (concat (map (\<lambda>n. rowsOf (n, valsOf pairs n)) (remdups (map fst pairs))))"
    by (simp add: comp_def)
  also have "\<dots> = mset (concat (map (\<lambda>n. specRowsFor H n (itemsNamed pairs n)) (remdups (map fst pairs))))"
    by (rule mset_concat_map_pointwise) (use grp in \<open>auto simp: itemsNamed_valsOf\<close>)
  finally have "mset (concat (map rowsOf G)) = mset (specRows H pairs)"
    by (simp add: specRows_def)
  with p res show ?thesis by (auto simp: sortBy_mset)
qed

theorem rows_per_name_and_unit_witness:
  "\<exists>pairs res. occurrenceItems asciiHost exampleLists = Inr pairs \<and>
     combineIngredients asciiHost exampleLists = Inr res \<and>
     mset res = mset (specRows asciiHost pairs) \<and>
     res = [exampleChicken, exampleGarlicG, exampleGarlicPcs] \<and>
     ci_name exampleGarlicG = js ''garlic (g)'' \<and> ci_recipeCount exampleGarlicG = 1 \<and>
     ci_name exampleGarlicPcs = js ''garlic (pcs)'' \<and> ci_recipeCount exampleGarlicPcs = 2 \<and>
     ci_name exampleChicken = js ''chicken'' \<and> ci_displayName exampleChicken = js ''Chicken''"
proof -
  from rows_per_name_and_unit[of asciiHost exampleLists] obtain pairs res where
    a: "occurrenceItems asciiHost exampleLists = Inr pairs"
       "combineIngredients asciiHost exampleLists = Inr res"
       "mset res = mset (specRows asciiHost pairs)" by blast
  from a(2) have "res = [exampleChicken, exampleGarlicG, exampleGarlicPcs]"
    by (simp add: example_rows)
  moreover have "ci_name exampleGarlicG = js ''garlic (g)''" "ci_recipeCount exampleGarlicG = 1"
    "ci_name exampleGarlicPcs = js ''garlic (pcs)''" "ci_recipeCount exampleGarlicPcs = 2"
    "ci_name exampleChicken = js ''chicken''" "ci_displayName exampleChicken = js ''Chicken''"
    by (simp_all add: exampleGarlicG_def exampleGarlicPcs_def exampleChicken_def)
  ultimately show ?thesis using a by blast
qed

text \<open>
  Claim C5. For every label \<open>parseQuantityFromLabel\<close> returns a result: no capture group it
  reads is undefined and no amount is NaN. A label that, once a trailing \<^verbatim>\<open>x0\<close> is
  stripped, matches none of the four quantity patterns yields amount 1, unit pcs,
  count-based.
\<close>

theorem parse_never_fails:
  "(\<exists>q. parseQuantityFromLabel H label = Inr q) \<and>
   (match True rxParen (replaceFirst True rxX0 [] label) = None \<and>
    match True rxParenNum (replaceFirst True rxX0 [] label) = None \<and>
    match True rxXSuffix (replaceFirst True rxX0 [] label) = None \<and>
    match True rxLeadingNum (replaceFirst True rxX0 [] label) = None \<longrightarrow>
    parseQuantityFromLabel H label =
      Inr \<lparr>lq_amount = 1, lq_unit = js ''pcs'', lq_isPackBased = False\<rparr>)"
proof
  show "\<exists>q. parseQuantityFromLabel H label = Inr q"
    using parse_cases[of H label] by blast
  show "match True rxParen (replaceFirst True rxX0 [] label) = None \<and>
    match True rxParenNum (replaceFirst True rxX0 [] label) = None \<and>
    match True rxXSuffix (replaceFirst True rxX0 [] label) = None \<and>
    match True rxLeadingNum (replaceFirst True rxX0 [] label) = None \<longrightarrow>
    parseQuantityFromLabel H label =
      Inr \<lparr>lq_amount = 1, lq_unit = js ''pcs'', lq_isPackBased = False\<rparr>"
    by (simp add: parseQuantityFromLabel_def)
qed

lemma red_onion_cleaned: "replaceFirst True rxX0 [] (js ''Red onion x0'') = js ''Red onion''"
  by (simp add: js_def replaceFirst_def rxX0_def isSpace_def canonicalize_def)

lemma red_onion_no_match:
  "match True rxParen (js ''Red onion'') = None"
  "match True rxParenNum (js ''Red onion'') = None"
  "match True rxXSuffix (js ''Red onion'') = None"
  "match True rxLeadingNum (js ''Red onion'') = None"
  by (simp_all add: js_def match_def rxParen_def rxParenNum_def rxXSuffix_def rxLeadingNum_def
      rxNumber_def rxUnit_def isSpace_def isDigit_def canonicalize_def)

theorem parse_never_fails_witness:
  "match True rxParen (replaceFirst True rxX0 [] (js ''Red onion x0'')) = None \<and>
   match True rxParenNum (replaceFirst True rxX0 [] (js ''Red onion x0'')) = None \<and>
   match True rxXSuffix (replaceFirst True rxX0 [] (js ''Red onion x0'')) = None \<and>
   match True rxLeadingNum (replaceFirst True rxX0 [] (js ''Red onion x0'')) = None \<and>
   parseQuantityFromLabel asciiHost (js ''Red onion x0'') =
     Inr \<lparr>lq_amount = 1, lq_unit = js ''pcs'', lq_isPackBased = False\<rparr>"
proof -
  have h: "match True rxParen (replaceFirst True rxX0 [] (js ''Red onion x0'')) = None \<and>
    match True rxParenNum (replaceFirst True rxX0 [] (js ''Red onion x0'')) = None \<and>
    match True rxXSuffix (replaceFirst True rxX0 [] (js ''Red onion x0'')) = None \<and>
    match True rxLeadingNum (replaceFirst True rxX0 [] (js ''Red onion x0'')) = None"
    unfolding red_onion_cleaned using red_onion_no_match by simp
  from h parse_never_fails[of asciiHost "js ''Red onion x0''"] show ?thesis by blast
qed

text \<open>
  Claim C6. A line that matches the index-entry pattern is never a recipe title, also
  when its cleaned length is at least 3 and its letters are upper case.
\<close>

theorem index_entry_never_title:
  "isIndexEntry line \<Longrightarrow> \<not> isRecipeTitle line"
  by (simp add: isRecipeTitle_def Let_def)

theorem index_entry_never_title_witness:
  "isIndexEntry exampleIndexLine \<and> \<not> isRecipeTitle exampleIndexLine \<and>
   length (trim (replaceAll False rxXE [] exampleIndexLine)) = 19 \<and>
   countClass upperLetters
     (replaceAll False (One (Neg (upperLetters @ [Ch 32] @ lowerLetters))) []
        (trim (replaceAll False rxXE [] exampleIndexLine))) = 12 \<and>
   countClass lowerLetters
     (replaceAll False (One (Neg (upperLetters @ [Ch 32] @ lowerLetters))) []
        (trim (replaceAll False rxXE [] exampleIndexLine))) = 0 \<and>
   isRecipeTitle (js ''POLLO AL HORNO'')"
proof -
  have h: "isIndexEntry exampleIndexLine"
    by (simp add: isIndexEntry_def rxIndexEntry_def exampleIndexLine_def rx_eval)
  have c: "trim exampleIndexLine = exampleIndexLine"
    by (simp add: exampleIndexLine_def rx_eval)
  have l: "replaceAll False (One (Neg (upperLetters @ [Ch 32] @ lowerLetters))) [] exampleIndexLine
            = js ''POLLO AL HORNO  ''"
    by (simp add: exampleIndexLine_def replaceAll_def replaceFrom_One upperLetters_def lowerLetters_def rx_eval)
  have n: "length exampleIndexLine = 19" by (simp add: exampleIndexLine_def js_def)
  have u: "countClass upperLetters (js ''POLLO AL HORNO  '') = 12"
    "countClass lowerLetters (js ''POLLO AL HORNO  '') = 0"
    by (simp_all add: countClass_def upperLetters_def lowerLetters_def js_def)
  have t: "isRecipeTitle (js ''POLLO AL HORNO'')"
    by (simp add: isRecipeTitle_def isIndexEntry_def rxIndexEntry_def replaceAll_def rxXE_def
        replaceFrom.simps upperLetters_def lowerLetters_def countClass_def rx_eval)
  from h index_entry_never_title[OF h] t show ?thesis
    by (simp only: exampleIndexLine_cleaned c l n u) simp
qed

text \<open>
  Claim C7. For every title, whatever the case tables and the normalisation of the host
  return, the slug contains only the characters \<^verbatim>\<open>a-z\<close>, \<^verbatim>\<open>0-9\<close> and the hyphen, it
  neither starts nor ends with a hyphen, and it has no two hyphens in a row.
\<close>

theorem slug_shape:
  "(\<forall>c \<in> set (slugify H T). (97 \<le> c \<and> c \<le> 122) \<or> (48 \<le> c \<and> c \<le> 57) \<or> c = 45) \<and>
   (slugify H T \<noteq> [] \<longrightarrow> hd (slugify H T) \<noteq> 45 \<and> last (slugify H T) \<noteq> 45) \<and>
   \<not> (\<exists>us vs. slugify H T = us @ [45, 45] @ vs)"
proof -
  define s2 where "s2 = replaceAll False (One (Pos [Rng 768 879])) [] (normalizeNFD H (toLowerCase H T))"
  define s3 where "s3 = replaceAll False (One (Neg [Rng 97 122, Rng 48 57, Space, Ch 45])) [] s2"
  define s4 where "s4 = replaceAll False (Plus space) (js ''-'') s3"
  define s5 where "s5 = replaceAll False (Plus (Pos [Ch 45])) (js ''-'') s4"
  have slug: "slugify H T = replaceAll False rxEdgeHyphen [] s5"
    by (simp add: slugify_def s5_def s4_def s3_def s2_def)
  have c3: "\<forall>c \<in> set s3. slugChar c \<or> isSpace c"
    by (auto simp: s3_def replaceAll_def replaceFrom_One slugChar_def)
  have "set s4 \<subseteq> set (js ''-'') \<union> {x \<in> set s3. \<not> inSet False space x}"
    unfolding s4_def replaceAll_def by (rule replaceFrom_Plus_set)
  with c3 have c4: "\<forall>c \<in> set s4. slugChar c" by (auto simp: js_def slugChar_def)
  have "set s5 \<subseteq> set (js ''-'') \<union> {x \<in> set s4. \<not> inSet False (Pos [Ch 45]) x}"
    unfolding s5_def replaceAll_def by (rule replaceFrom_Plus_set)
  with c4 have c5: "\<forall>c \<in> set s5. slugChar c" by (auto simp: js_def slugChar_def)
  have d5: "\<not> doubled s5"
    using collapse_hyphens[of None s4] by (simp add: s5_def replaceAll_def js_def)
  from trim_edges(1)[OF d5] c5 have "\<forall>c \<in> set (slugify H T). slugChar c"
    by (auto simp: slug)
  moreover from trim_edges(3,4)[OF d5]
  have "slugify H T \<noteq> [] \<longrightarrow> hd (slugify H T) \<noteq> 45 \<and> last (slugify H T) \<noteq> 45"
    by (simp add: slug)
  moreover from trim_edges(2)[OF d5] have "\<not> (\<exists>us vs. slugify H T = us @ [45, 45] @ vs)"
    using doubled_append by (auto simp: slug)
  ultimately show ?thesis by (simp add: slugChar_def)
qed

theorem slug_shape_witness:
  "slugify asciiHost exampleTitle = js ''pollo-al-horno'' \<and>
   45 \<in> set (slugify asciiHost exampleTitle) \<and>
   slugify asciiHost exampleTitle \<noteq> [] \<and>
   hd (slugify asciiHost exampleTitle) \<noteq> 45 \<and> last (slugify asciiHost exampleTitle) \<noteq> 45"
proof -
  have n: "slugify asciiHost exampleTitle \<noteq> []" "45 \<in> set (slugify asciiHost exampleTitle)"
    by (simp_all add: example_slug js_def)
  from slug_shape[of asciiHost exampleTitle] n example_slug show ?thesis by blast
qed

text \<open>
  Claim C8. \<open>separateContent\<close> returns the ingredient lines joined by a newline and the
  method lines joined by two newlines exactly when the loop collected at least two
  ingredient lines and at least one method line, and the trimmed body as \<open>content\<close>
  otherwise. The five lines of the example are separated into the two ingredient lines
  and the two method lines.
\<close>

theorem separateContent_rule:
  "(length (ingredientLines (collectLines body)) \<ge> 2 \<and> length (methodLines (collectLines body)) \<ge> 1 \<longrightarrow>
      separateContent body =
        \<lparr>sep_ingredientes = Some (join [10] (ingredientLines (collectLines body))),
         sep_metodo = Some (join [10, 10] (methodLines (collectLines body))),
         sep_content = None\<rparr>) \<and>
   (\<not> (length (ingredientLines (collectLines body)) \<ge> 2 \<and> length (methodLines (collectLines body)) \<ge> 1) \<longrightarrow>
      separateContent body =
        \<lparr>sep_ingredientes = None, sep_metodo = None, sep_content = Some (trim body)\<rparr>) \<and>
   ((\<exists>i m. separateContent body = \<lparr>sep_ingredientes = Some i, sep_metodo = Some m, sep_content = None\<rparr>) \<longleftrightarrow>
      length (ingredientLines (collectLines body)) \<ge> 2 \<and> length (methodLines (collectLines body)) \<ge> 1) \<and>
   separateContent exampleBody =
     \<lparr>sep_ingredientes = Some (lineHarina @ [10] @ lineAzucar),
      sep_metodo = Some (lineMezclar @ [10, 10] @ lineHornear),
      sep_content = None\<rparr> \<and>
   separateContent (exampleBody @ [10]) =
     \<lparr>sep_ingredientes = Some (lineHarina @ [10] @ lineAzucar),
      sep_metodo = Some (lineMezclar @ [10, 10] @ lineHornear),
      sep_content = None\<rparr>"
proof (intro conjI)
  show "separateContent exampleBody =
     \<lparr>sep_ingredientes = Some (lineHarina @ [10] @ lineAzucar),
      sep_metodo = Some (lineMezclar @ [10, 10] @ lineHornear),
      sep_content = None\<rparr>"
    by (simp add: separateContent_def example_collect)
  show "separateContent (exampleBody @ [10]) =
     \<lparr>sep_ingredientes = Some (lineHarina @ [10] @ lineAzucar),
      sep_metodo = Some (lineMezclar @ [10, 10] @ lineHornear),
      sep_content = None\<rparr>"
    by (simp add: separateContent_def example_collect_newline)
qed (auto simp: separateContent_def Let_def)

theorem separateContent_rule_witness:
  "length (ingredientLines (collectLines exampleBody)) = 2 \<and>
   length (methodLines (collectLines exampleBody)) = 2 \<and>
   separateContent exampleBody =
     \<lparr>sep_ingredientes = Some (join [10] (ingredientLines (collectLines exampleBody))),
      sep_metodo = Some (join [10, 10] (methodLines (collectLines exampleBody))),
      sep_content = None\<rparr> \<and>
   join [10] (ingredientLines (collectLines exampleBody)) =
     js ''2 tazas de harina'' @ [10] @ js ''1 taza de az'' @ [250] @ js ''car'' \<and>
   join [10, 10] (methodLines (collectLines exampleBody)) =
     js ''Mezclar los ingredientes secos.'' @ [10, 10] @ js ''Hornear a 180 grados.'' \<and>
   collectLines (js ''Hervir todo.'') =
     \<lparr>ingredientLines = [], methodLines = [js ''Hervir todo.''], foundBlankLine = False,
      inMethod = True\<rparr> \<and>
   separateContent (js ''Hervir todo.'') =
     \<lparr>sep_ingredientes = None, sep_metodo = None, sep_content = Some (js ''Hervir todo.'')\<rparr>"
proof -
  have h: "length (ingredientLines (collectLines exampleBody)) \<ge> 2 \<and>
           length (methodLines (collectLines exampleBody)) \<ge> 1"
    by (simp add: example_collect)
  have j: "join [10] (ingredientLines (collectLines exampleBody)) =
        js ''2 tazas de harina'' @ [10] @ js ''1 taza de az'' @ [250] @ js ''car''"
    "join [10, 10] (methodLines (collectLines exampleBody)) =
        js ''Mezclar los ingredientes secos.'' @ [10, 10] @ js ''Hornear a 180 grados.''"
    by (simp_all add: example_collect line_defs)
  have t: "trim (js ''Hervir todo.'') = js ''Hervir todo.''" by (simp add: rx_eval)
  have l: "\<not> looksLikeIngredient (js ''Hervir todo.'')" by (simp add: heuristic_eval)
  have s: "splitLines (js ''Hervir todo.'') = [js ''Hervir todo.'']" by (simp add: js_def)
  have n: "js ''Hervir todo.'' \<noteq> []" by (simp add: js_def)
  have c: "collectLines (js ''Hervir todo.'') =
     \<lparr>ingredientLines = [], methodLines = [js ''Hervir todo.''], foundBlankLine = False,
      inMethod = True\<rparr>"
    by (simp add: collectLines_def s scStep_def scInit_def t l n)
  have g: "\<not> (length (ingredientLines (collectLines (js ''Hervir todo.''))) \<ge> 2 \<and>
           length (methodLines (collectLines (js ''Hervir todo.''))) \<ge> 1)"
    by (simp add: c)
  from separateContent_rule[of exampleBody] h
  have 1: "separateContent exampleBody =
     \<lparr>sep_ingredientes = Some (join [10] (ingredientLines (collectLines exampleBody))),
      sep_metodo = Some (join [10, 10] (methodLines (collectLines exampleBody))),
      sep_content = None\<rparr>" by blast
  from separateContent_rule[of "js ''Hervir todo.''"] g t
  have 2: "separateContent (js ''Hervir todo.'') =
     \<lparr>sep_ingredientes = None, sep_metodo = None, sep_content = Some (js ''Hervir todo.'')\<rparr>"
    by simp
  from 1 2 j c show ?thesis by (simp add: example_collect)
qed

text \<open>
  Claim C9. The switch to the method section is one-way: once \<open>inMethod\<close> holds after some
  lines of a body, it holds after every further line, no further line is added to the
  ingredient lines, and every further non-blank line is added, trimmed, to the method lines.
\<close>

theorem method_never_reverts:
  "inMethod (foldl scStep scInit pre) \<Longrightarrow>
     inMethod (foldl scStep scInit (pre @ post)) \<and>
     ingredientLines (foldl scStep scInit (pre @ post)) = ingredientLines (foldl scStep scInit pre) \<and>
     methodLines (foldl scStep scInit (pre @ post)) =
       methodLines (foldl scStep scInit pre) @ filter (\<lambda>l. l \<noteq> []) (map trim post)"
  using foldl_scStep_inMethod[of "foldl scStep scInit pre" post] by simp

theorem method_never_reverts_witness:
  "inMethod (foldl scStep scInit [lineHarina, lineAzucar, [], lineMezclar]) \<and>
   inMethod (foldl scStep scInit ([lineHarina, lineAzucar, [], lineMezclar] @ [lineHuevos, []])) \<and>
   ingredientLines (foldl scStep scInit ([lineHarina, lineAzucar, [], lineMezclar] @ [lineHuevos, []])) =
     [lineHarina, lineAzucar] \<and>
   methodLines (foldl scStep scInit ([lineHarina, lineAzucar, [], lineMezclar] @ [lineHuevos, []])) =
     [lineMezclar, lineHuevos] \<and>
   looksLikeIngredient lineHuevos"
proof -
  have h: "inMethod (foldl scStep scInit [lineHarina, lineAzucar, [], lineMezclar])"
    by (simp only: example_prefix_state) simp
  have t: "filter (\<lambda>l. l \<noteq> []) (map trim [lineHuevos, []]) = [lineHuevos]"
    by (simp add: trim_example_lines nonempty_example_lines)
  from method_never_reverts[OF h, of "[lineHuevos, []]"] h looks_example_lines(4) show ?thesis
    by (simp only: t example_prefix_state) simp
qed

text \<open>
  Claim C10. In every record that \<open>combineIngredients\<close> returns, every element of
  \<open>quantities\<close> carries the record's own unit, and that unit is one of the seven tokens
  g, kg, ml, l, tsp, tbsp and pcs: the item made of an occurrence keeps the parsed unit
  when it is a measured unit and has the unit pcs otherwise.
\<close>

theorem units_canonical:
  "(\<exists>res. combineIngredients H ils = Inr res \<and>
     (\<forall>c \<in> set res.
        (\<forall>q \<in> set (ci_quantities c). pq_unit q = ci_unit c) \<and>
        ci_unit c \<in> {js ''g'', js ''kg'', js ''ml'', js ''l'', js ''tsp'', js ''tbsp'', js ''pcs''})) \<and>
   (\<exists>q it. parseQuantityFromLabel H (ing_label ing) = Inr q \<and> mkItem H title ing = Inr it \<and>
      it_unit it = (if lq_unit q \<in> set measuredUnits then lq_unit q else js ''pcs''))"
proof
  from parse_cases[of H "ing_label ing"] obtain q where
    q: "parseQuantityFromLabel H (ing_label ing) = Inr q" "lq_unit q \<in> set labelUnits" by blast
  from lower_labelUnits[OF q(2)] have "toLowerCase H (lq_unit q) = lq_unit q"
    by (simp add: toLowerCase_def)
  with q(1) show "\<exists>q it. parseQuantityFromLabel H (ing_label ing) = Inr q \<and>
      mkItem H title ing = Inr it \<and>
      it_unit it = (if lq_unit q \<in> set measuredUnits then lq_unit q else js ''pcs'')"
    by (simp add: mkItem_def Let_def)
next
  show "\<exists>res. combineIngredients H ils = Inr res \<and>
     (\<forall>c \<in> set res.
        (\<forall>q \<in> set (ci_quantities c). pq_unit q = ci_unit c) \<and>
        ci_unit c \<in> {js ''g'', js ''kg'', js ''ml'', js ''l'', js ''tsp'', js ''tbsp'', js ''pcs''})"
  proof -
    from combine_total obtain res where res: "combineIngredients H ils = Inr res" by blast
    have "(\<forall>q \<in> set (ci_quantities c). pq_unit q = ci_unit c) \<and> ci_unit c \<in> set canonicalUnits"
      if "c \<in> set res" for c
    proof -
      from combine_mem[OF res that] obtain name items suffix unit its where
        items: "\<forall>it \<in> set items. madeItem H name it" and
        u: "(unit, its) \<in> set (byUnitOf H items)" and
        c: "mkCombined H name suffix unit its = Inr c" by blast
      have "allVals (\<lambda>unit it. toLowerCase H (it_unit it) = unit \<and> it_unit it \<in> set canonicalUnits)
              (byUnitOf H items)"
        by (rule byUnitOf_allVals) (use items in \<open>auto simp: madeItem_def\<close>)
      with u have its: "its \<noteq> []"
        "\<forall>it \<in> set its. toLowerCase H (it_unit it) = unit \<and> it_unit it \<in> set canonicalUnits"
        by (auto simp: allVals_def)
      then have same: "\<forall>it \<in> set its. it_unit it = unit" by (auto simp: lower_canonicalUnits)
      from its same have "unit \<in> set canonicalUnits" by (cases its) auto
      with same mkCombined_fields(4,6)[OF c] show ?thesis by auto
    qed
    with res show ?thesis unfolding canonicalUnits_def by auto
  qed
qed

theorem units_canonical_witness:
  "\<exists>res. combineIngredients asciiHost exampleLists = Inr res \<and> exampleGarlicPcs \<in> set res \<and>
     pq_unit (ci_quantities exampleGarlicPcs ! 0) = ci_unit exampleGarlicPcs \<and>
     pq_unit (ci_quantities exampleGarlicPcs ! 1) = ci_unit exampleGarlicPcs \<and>
     pq_originalLabel (ci_quantities exampleGarlicPcs ! 1) = js ''Garlic (2PC)'' \<and>
     ci_unit exampleGarlicPcs = js ''pcs'' \<and>
     parseQuantityFromLabel asciiHost (js ''Garlic (2PC)'') =
       Inr \<lparr>lq_amount = 2, lq_unit = js ''pc'', lq_isPackBased = True\<rparr>"
proof -
  from units_canonical[of asciiHost exampleLists] obtain res where
    r: "combineIngredients asciiHost exampleLists = Inr res" and
    a: "\<forall>c \<in> set res. (\<forall>q \<in> set (ci_quantities c). pq_unit q = ci_unit c) \<and>
        ci_unit c \<in> {js ''g'', js ''kg'', js ''ml'', js ''l'', js ''tsp'', js ''tbsp'', js ''pcs''}" by blast
  from r have m: "exampleGarlicPcs \<in> set res" by (auto simp: example_rows)
  from a m have q: "\<forall>q \<in> set (ci_quantities exampleGarlicPcs). pq_unit q = ci_unit exampleGarlicPcs"
    by blast
  have n: "ci_quantities exampleGarlicPcs ! 0 \<in> set (ci_quantities exampleGarlicPcs)"
    "ci_quantities exampleGarlicPcs ! 1 \<in> set (ci_quantities exampleGarlicPcs)"
    by (simp_all add: exampleGarlicPcs_def)
  from q n have "pq_unit (ci_quantities exampleGarlicPcs ! 0) = ci_unit exampleGarlicPcs"
    "pq_unit (ci_quantities exampleGarlicPcs ! 1) = ci_unit exampleGarlicPcs" by blast+
  moreover have "pq_originalLabel (ci_quantities exampleGarlicPcs ! 1) = js ''Garlic (2PC)''"
    "ci_unit exampleGarlicPcs = js ''pcs''"
    by (simp_all add: exampleGarlicPcs_def)
  ultimately show ?thesis using r m parse_garlic_pc[of asciiHost] by blast
qed

end
